theory Spec2Isabelle
  imports Main "HOL-Library.AList"
begin

section \<open>The Loxone adapter: state synchronisation and command acknowledgement\<close>

text \<open>
  The adapter class \<^verbatim>\<open>Loxone\<close> of \<^verbatim>\<open>main.ts\<close> is embedded as functions on an explicit
  adapter state. Every method takes the state and returns the new one. What a method
  does to its surroundings (a log line, a write to the state store, a call of a
  registered listener, a call on the socket) is appended to the \<open>trace\<close> field, oldest
  first, so that order and number of such effects can be stated.

  Objects that the source shares by reference (a \<^verbatim>\<open>StateChangeListenEntry\<close>, an
  \<^verbatim>\<open>InfoEntry\<close>) live in a store indexed by a reference number; the dictionaries and the
  timer callbacks hold the reference, as the closures of the source hold the object.

  Each method is run to completion before the next one starts: the points at which
  the source awaits the host platform are not points of interleaving here. The two
  places where the surroundings act during a method are parameters: the events that
  the transport delivers while the queue is being drained, and the outcome of each
  step of a connection attempt.
\<close>

subsection \<open>Values\<close>

text \<open>
  \<^verbatim>\<open>ioBroker.StateValue\<close> is \<^verbatim>\<open>string | number | boolean | null\<close>. Numbers are
  integers here, with \<open>VNaN\<close> for the one non-number that \<^verbatim>\<open>parseInt\<close> can return.
  \<^verbatim>\<open>undefined\<close> is \<open>None\<close> of an option type wherever the source admits it.
\<close>

datatype StateValue = VNull | VNum int | VNaN | VStr string | VBool bool

record State =
  val :: StateValue
  ack :: bool

text \<open>JavaScript truthiness of a state value (\<^verbatim>\<open>!value\<close> is its negation).\<close>

fun truthy :: "StateValue \<Rightarrow> bool" where
  "truthy VNull = False"
| "truthy (VNum n) = (n \<noteq> 0)"
| "truthy VNaN = False"
| "truthy (VStr s) = (s \<noteq> [])"
| "truthy (VBool b) = b"

text \<open>Strict equality \<^verbatim>\<open>===\<close> between a possibly undefined value and a value.\<close>

definition strictEq :: "StateValue option \<Rightarrow> StateValue \<Rightarrow> bool" where
  "strictEq a b = (a = Some b \<and> b \<noteq> VNaN)"

text \<open>\<^verbatim>\<open>String.prototype.includes\<close>.\<close>

fun startsWith :: "string \<Rightarrow> string \<Rightarrow> bool" where
  "startsWith s [] = True"
| "startsWith [] (p # ps) = False"
| "startsWith (c # cs) (p # ps) = (c = p \<and> startsWith cs ps)"

fun str_includes :: "string \<Rightarrow> string \<Rightarrow> bool" where
  "str_includes [] p = (p = [])"
| "str_includes (c # cs) p = (startsWith (c # cs) p \<or> str_includes cs p)"

subsection \<open>Types of the adapter\<close>

record StateChangeListenerOpts =
  notIfEqual :: bool
  convertToInt :: bool
  minInt :: "int option"
  maxInt :: "int option"
  ackTimeoutMs :: "nat option"
  selfAck :: bool

text \<open>
  The \<^verbatim>\<open>listener\<close> field of an entry is a callback of a control module. It is
  represented by the reference of its entry: calling it appends \<open>ListenerCall\<close> with
  that reference and the two arguments to the trace.
\<close>

record StateChangeListenEntry =
  opts :: "StateChangeListenerOpts option"
  queuedVal :: StateValue
  ackTimer :: "nat option"

record LoxoneEvent =
  uuid :: string
  evt :: StateValue

text \<open>
  An event handler is a callback of a control module. It is represented by what it
  does to the adapter when called with the value of an event: a sequence of calls of
  \<^verbatim>\<open>setStateAck\<close>, possibly ended by an exception.
\<close>

datatype HandlerStep = CallSetStateAck string StateValue | Throw

type_synonym StateEventHandler = "StateValue \<Rightarrow> HandlerStep list"

record StateEventRegistration =
  name :: "string option"
  handler :: StateEventHandler

record infoDetailsEntry =
  count :: int
  lastValue :: "StateValue option"

type_synonym infoDetailsEntryMap = "(string \<times> infoDetailsEntry) list"

text \<open>
  The counters are numbers, or \<^verbatim>\<open>null\<close> (\<open>None\<close>) before the first increment of a
  fresh installation.
\<close>

record InfoEntry =
  ivalue :: "int option"
  lastSet :: "int option"
  timer :: "nat option"
  detailsMap :: "infoDetailsEntryMap option"

text \<open>The callbacks that the adapter passes to \<^verbatim>\<open>setTimeout\<close>.\<close>

datatype Callback =
    AckTimeoutCb string nat
  | InfoTimeoutCb string nat
  | ReconnectCb

record Timeout =
  handle :: nat
  due :: nat
  cb :: Callback

text \<open>
  Modelled from the spec: the table \<^verbatim>\<open>LxCommunicator.SupportCode\<close> is not part of the
  sources; the close code is either the distinguished manual-close code, which
  suppresses the automatic reconnect, or any other code.
\<close>

datatype SupportCode = WEBSOCKET_MANUAL_CLOSE | OtherCode string

datatype Level = Silly | Debug | Info | Warn | Error

datatype Message =
    MsgStateChange string State
  | MsgUnsupportedStateChange string
  | MsgWhileDisconnected string
  | MsgDiscarding string StateValue
  | MsgDelaying string StateValue
  | MsgUnchanged string StateValue
  | MsgTimeoutForAck string
  | MsgSelfAck string StateValue
  | MsgHandlingDelayed string StateValue
  | MsgClearingAckTimer string
  | MsgNoAckTimer string
  | MsgNoListener string
  | MsgNoInfoEntry string
  | MsgValueChanged string "int option"
  | MsgStartingTimer string
  | MsgTimeoutFor string
  | MsgReceived string StateValue
  | MsgQueueStopped
  | MsgQueueInProgress
  | MsgProcessing nat
  | MsgDequeued string
  | MsgQueueDone
  | MsgUnknownEvent string StateValue
  | MsgHandlerError string
  | MsgSocketClosed SupportCode
  | MsgQueueNotEmpty nat
  | MsgConnectionInProgress
  | MsgTryingToConnect
  | MsgCouldntOpenSocket
  | MsgCouldntGetStructureFile
  | MsgStructureFile
  | MsgGotStructureFile
  | MsgStructureLoaded
  | MsgCouldntLoadStructureFile
  | MsgCouldntEnableUpdates
  | MsgConnectionFailed
  | MsgReconnectTimerRunning
  | MsgReconnectInProgress
  | MsgSocketEventReceived

datatype Effect =
    Log Level Message
  | SetState string "int option"
  | SetStateDetail string "(string \<times> int \<times> StateValue option) list"
  | SetConnection bool
  | SetStateAsync string StateValue
  | ListenerCall nat "StateValue option" StateValue
  | SocketOpen
  | SocketSend string
  | SocketClose
  | UnloadCallback

record Loxone =
  namespace :: string
  socket :: bool
  currentStateValues :: "string \<rightharpoonup> StateValue"
  stateChangeListeners :: "(string \<times> nat) list"
  listenEntries :: "nat \<Rightarrow> StateChangeListenEntry"
  nextListenEntry :: nat
  stateEventHandlers :: "string \<rightharpoonup> StateEventRegistration list"
  eventsQueue :: "LoxoneEvent list"
  runQueue :: bool
  queueRunning :: bool
  reportedUnsupportedStateChanges :: "string set"
  reconnectTimer :: "nat option"
  connectionInProgress :: bool
  lxConnected :: bool
  info :: "(string \<times> nat) list"
  infoEntries :: "nat \<Rightarrow> InfoEntry"
  nextInfoEntry :: nat
  now :: nat
  timers :: "Timeout list"
  nextTimeout :: nat
  trace :: "Effect list"

text \<open>The constants of the source.\<close>

definition ackTimeoutMs_default :: nat where
  "ackTimeoutMs_default = 500"

definition reconnectTimeoutMs :: nat where
  "reconnectTimeoutMs = 5000"

definition infoTimeoutMs :: nat where
  "infoTimeoutMs = 30000"

subsection \<open>Logging and timers\<close>

definition emit :: "Effect \<Rightarrow> Loxone \<Rightarrow> Loxone" where
  "emit e s = s\<lparr>trace := trace s @ [e]\<rparr>"

definition log :: "Level \<Rightarrow> Message \<Rightarrow> Loxone \<Rightarrow> Loxone" where
  "log l m s = emit (Log l m) s"

text \<open>
  \<^verbatim>\<open>setTimeout\<close> hands out a fresh handle and files the callback under the time at
  which it is due; \<^verbatim>\<open>clearTimeout\<close> removes the timer with the given handle.
\<close>

definition setTimeout :: "Callback \<Rightarrow> nat \<Rightarrow> Loxone \<Rightarrow> nat \<times> Loxone" where
  "setTimeout c d s =
     (nextTimeout s,
      s\<lparr>timers := timers s @ [\<lparr>handle = nextTimeout s, due = now s + d, cb = c\<rparr>],
        nextTimeout := Suc (nextTimeout s)\<rparr>)"

definition clearTimeout :: "nat \<Rightarrow> Loxone \<Rightarrow> Loxone" where
  "clearTimeout h s = s\<lparr>timers := filter (\<lambda>t. handle t \<noteq> h) (timers s)\<rparr>"

definition setConnectionState :: "bool \<Rightarrow> Loxone \<Rightarrow> Loxone" where
  "setConnectionState connected s = emit (SetConnection connected) (s\<lparr>lxConnected := connected\<rparr>)"

subsection \<open>Aggregate counters\<close>

text \<open>\<^verbatim>\<open>Number(value)\<close> of a counter: \<^verbatim>\<open>null\<close> counts as zero.\<close>

definition Number :: "int option \<Rightarrow> int" where
  "Number v = (case v of None \<Rightarrow> 0 | Some n \<Rightarrow> n)"

definition getInfoEntry :: "string \<Rightarrow> Loxone \<Rightarrow> nat option \<times> Loxone" where
  "getInfoEntry ident s =
     (case map_of (info s) ident of
        None \<Rightarrow> (None, log Error (MsgNoInfoEntry ident) s)
      | Some r \<Rightarrow> (Some r, s))"

fun addInfoDetailsEntry ::
  "infoDetailsEntryMap \<Rightarrow> string \<Rightarrow> StateValue option \<Rightarrow> infoDetailsEntryMap" where
  "addInfoDetailsEntry [] ident v = [(ident, \<lparr>count = 1, lastValue = v\<rparr>)]"
| "addInfoDetailsEntry ((k, e) # details) ident v =
     (if k = ident
      then (k, e\<lparr>count := count e + 1,
                 lastValue := (case v of None \<Rightarrow> lastValue e | Some x \<Rightarrow> Some x)\<rparr>) # details
      else (k, e) # addInfoDetailsEntry details ident v)"

text \<open>
  \<^verbatim>\<open>buildInfoDetails\<close> serialises the detail map with \<^verbatim>\<open>JSON.stringify\<close>; the
  serialised text is represented by the list of entries it is made from.
\<close>

definition buildInfoDetails ::
  "infoDetailsEntryMap \<Rightarrow> (string \<times> int \<times> StateValue option) list" where
  "buildInfoDetails src = map (\<lambda>(key, v). (key, count v, lastValue v)) src"

definition updInfoEntry :: "nat \<Rightarrow> (InfoEntry \<Rightarrow> InfoEntry) \<Rightarrow> Loxone \<Rightarrow> Loxone" where
  "updInfoEntry r f s = s\<lparr>infoEntries := (infoEntries s)(r := f (infoEntries s r))\<rparr>"

definition setInfoStateIfChanged :: "string \<Rightarrow> nat \<Rightarrow> bool \<Rightarrow> Loxone \<Rightarrow> Loxone" where
  "setInfoStateIfChanged ident r shutdown s =
     (let infoEntry = infoEntries s r in
      if ivalue infoEntry \<noteq> lastSet infoEntry then
        let s1 = log Silly (MsgValueChanged ident (ivalue infoEntry)) s;
            s2 = emit (SetState ident (ivalue infoEntry)) s1;
            s3 = updInfoEntry r (\<lambda>e. e\<lparr>lastSet := ivalue e\<rparr>) s2;
            s4 = (case detailsMap infoEntry of
                    Some dm \<Rightarrow> emit (SetStateDetail (ident @ ''Detail'') (buildInfoDetails dm)) s3
                  | None \<Rightarrow> s3)
        in if \<not> shutdown then
             let s5 = log Silly (MsgStartingTimer ident) s4;
                 (h, s6) = setTimeout (InfoTimeoutCb ident r) infoTimeoutMs s5
             in updInfoEntry r (\<lambda>e. e\<lparr>timer := Some h\<rparr>) s6
           else s4
      else s)"

text \<open>The callback of the timer that \<^verbatim>\<open>setInfoStateIfChanged\<close> starts.\<close>

definition infoTimeout :: "string \<Rightarrow> nat \<Rightarrow> Loxone \<Rightarrow> Loxone" where
  "infoTimeout cbId r s =
     (let s1 = log Silly (MsgTimeoutFor cbId) s;
          s2 = updInfoEntry r (\<lambda>e. e\<lparr>timer := None\<rparr>) s1
      in setInfoStateIfChanged cbId r False s2)"

definition incInfoState ::
  "string \<Rightarrow> string option \<Rightarrow> StateValue option \<Rightarrow> Loxone \<Rightarrow> Loxone" where
  "incInfoState ident detailId detailValue s =
     (case getInfoEntry ident s of
        (None, s1) \<Rightarrow> s1
      | (Some r, s1) \<Rightarrow>
          let s2 = updInfoEntry r (\<lambda>e. e\<lparr>ivalue := Some (Number (ivalue e) + 1)\<rparr>) s1;
              s3 = (case (detailsMap (infoEntries s2 r), detailId) of
                      (Some dm, Some d) \<Rightarrow>
                        if d \<noteq> [] then
                          updInfoEntry r
                            (\<lambda>e. e\<lparr>detailsMap := Some (addInfoDetailsEntry dm d detailValue)\<rparr>) s2
                        else s2
                    | _ \<Rightarrow> s2)
          in if timer (infoEntries s3 r) = None
             then setInfoStateIfChanged ident r False s3
             else s3)"

text \<open>
  \<^verbatim>\<open>initInfoState\<close> reads the persisted counter (\<open>persisted\<close>: what \<^verbatim>\<open>getStateAsync\<close>
  returned, \<open>None\<close> for no state or a \<^verbatim>\<open>null\<close> value) and stores a new entry under
  the identifier.
\<close>

definition initInfoState :: "string \<Rightarrow> bool \<Rightarrow> int option \<Rightarrow> Loxone \<Rightarrow> Loxone" where
  "initInfoState ident hasDetails persisted s =
     (let r = nextInfoEntry s;
          entry = \<lparr>ivalue = persisted, lastSet = persisted, timer = None,
                   detailsMap = (if hasDetails then Some [] else None)\<rparr>
      in s\<lparr>infoEntries := (infoEntries s)(r := entry),
           nextInfoEntry := Suc r,
           info := AList.update ident r (info s)\<rparr>)"

text \<open>
  \<^verbatim>\<open>initInfoStates\<close>, given the persisted value of each of the six counters in the
  order of the source.
\<close>

definition initInfoStates :: "(string \<Rightarrow> int option) \<Rightarrow> Loxone \<Rightarrow> Loxone" where
  "initInfoStates persisted s =
     (let s1 = initInfoState ''info.ackTimeouts'' True (persisted ''info.ackTimeouts'') s;
          s2 = initInfoState ''info.messagesReceived'' False (persisted ''info.messagesReceived'') s1;
          s3 = initInfoState ''info.messagesSent'' False (persisted ''info.messagesSent'') s2;
          s4 = initInfoState ''info.stateChangesDelayed'' False
                 (persisted ''info.stateChangesDelayed'') s3;
          s5 = initInfoState ''info.stateChangesDiscarded'' False
                 (persisted ''info.stateChangesDiscarded'') s4
      in initInfoState ''info.unknownEvents'' True (persisted ''info.unknownEvents'') s5)"

text \<open>\<^verbatim>\<open>flushInfoStates\<close>, called on shutdown: the loop over the counters, in their order.\<close>

fun flushInfoStates_loop :: "(string \<times> nat) list \<Rightarrow> Loxone \<Rightarrow> Loxone" where
  "flushInfoStates_loop [] s = s"
| "flushInfoStates_loop ((key, r) # rest) s =
     flushInfoStates_loop rest
       (case timer (infoEntries s r) of
          Some h \<Rightarrow> setInfoStateIfChanged key r True (clearTimeout h s)
        | None \<Rightarrow> s)"

definition flushInfoStates :: "Loxone \<Rightarrow> Loxone" where
  "flushInfoStates s = flushInfoStates_loop (info s) s"

subsection \<open>Locally requested writes and their acknowledgement\<close>

text \<open>
  \<^verbatim>\<open>convertStateToInt\<close> is \<^verbatim>\<open>!value ? 0 : parseInt(value.toString())\<close>. The built-in
  \<^verbatim>\<open>parseInt\<close> after \<^verbatim>\<open>toString\<close> is the parameter \<open>pI\<close> of every function that
  reaches it.
\<close>

definition convertStateToInt :: "(StateValue \<Rightarrow> StateValue) \<Rightarrow> StateValue \<Rightarrow> StateValue" where
  "convertStateToInt pI v = (if \<not> truthy v then VNum 0 else pI v)"

text \<open>The comparisons \<^verbatim>\<open>val < minInt\<close> and \<^verbatim>\<open>val > maxInt\<close>: false on \<^verbatim>\<open>NaN\<close>.\<close>

definition numLess :: "StateValue \<Rightarrow> int \<Rightarrow> bool" where
  "numLess v m = (case v of VNum n \<Rightarrow> n < m | _ \<Rightarrow> False)"

definition numGreater :: "StateValue \<Rightarrow> int \<Rightarrow> bool" where
  "numGreater v m = (case v of VNum n \<Rightarrow> n > m | _ \<Rightarrow> False)"

text \<open>The first block of \<^verbatim>\<open>handleStateChange\<close>: conversion to an integer within range.\<close>

definition coerce ::
  "(StateValue \<Rightarrow> StateValue) \<Rightarrow> StateChangeListenerOpts option \<Rightarrow> StateValue \<Rightarrow> StateValue" where
  "coerce pI os v =
     (case os of
        None \<Rightarrow> v
      | Some opt \<Rightarrow>
          if convertToInt opt then
            let v1 = convertStateToInt pI v;
                v2 = (case minInt opt of
                        Some m \<Rightarrow> if numLess v1 m then VNum m else v1
                      | None \<Rightarrow> v1)
            in (case maxInt opt of
                  Some m \<Rightarrow> if numGreater v2 m then VNum m else v2
                | None \<Rightarrow> v2)
          else v)"

text \<open>The optional chains \<^verbatim>\<open>opts?.notIfEqual\<close>, \<^verbatim>\<open>opts?.selfAck\<close> and the timeout.\<close>

definition optNotIfEqual :: "StateChangeListenerOpts option \<Rightarrow> bool" where
  "optNotIfEqual os = (case os of None \<Rightarrow> False | Some opt \<Rightarrow> notIfEqual opt)"

definition optSelfAck :: "StateChangeListenerOpts option \<Rightarrow> bool" where
  "optSelfAck os = (case os of None \<Rightarrow> False | Some opt \<Rightarrow> selfAck opt)"

definition optAckTimeoutMs :: "StateChangeListenerOpts option \<Rightarrow> nat" where
  "optAckTimeoutMs os =
     (case os of
        None \<Rightarrow> ackTimeoutMs_default
      | Some opt \<Rightarrow>
          (case ackTimeoutMs opt of
             None \<Rightarrow> ackTimeoutMs_default
           | Some t \<Rightarrow> if t \<noteq> 0 then t else ackTimeoutMs_default))"

definition updListenEntry ::
  "nat \<Rightarrow> (StateChangeListenEntry \<Rightarrow> StateChangeListenEntry) \<Rightarrow> Loxone \<Rightarrow> Loxone" where
  "updListenEntry r f s = s\<lparr>listenEntries := (listenEntries s)(r := f (listenEntries s r))\<rparr>"

text \<open>
  The number of registered identifiers that are at least as long as \<open>n\<close>. It bounds
  the chain of calls below: \<^verbatim>\<open>setStateAck\<close> prefixes the identifier it is given with
  the namespace before it looks for a listener, so each round of the chain concerns
  a longer identifier, and the dictionary is finite.
\<close>

definition longer :: "nat \<Rightarrow> (string \<times> nat) list \<Rightarrow> nat" where
  "longer n xs = length (filter (\<lambda>kv. n \<le> length (fst kv)) xs)"

lemma longer_mono: "n \<le> m \<Longrightarrow> longer m xs \<le> longer n xs"
  unfolding longer_def by (induction xs) auto

lemma longer_less:
  "map_of xs k = Some r \<Longrightarrow> longer (Suc (length k)) xs < longer (length k) xs"
proof (induction xs)
  case Nil
  then show ?case by simp
next
  case (Cons kv xs)
  have le: "longer (Suc (length k)) xs \<le> longer (length k) xs"
    by (rule longer_mono) simp
  show ?case
  proof (cases "fst kv = k")
    case True
    with le show ?thesis by (simp add: longer_def)
  next
    case False
    with Cons have "longer (Suc (length k)) xs < longer (length k) xs"
      by (cases kv) (simp split: if_splits)
    then show ?thesis by (simp add: longer_def)
  qed
qed

function handleStateChange ::
    "(StateValue \<Rightarrow> StateValue) \<Rightarrow> string \<Rightarrow> nat \<Rightarrow> StateValue \<Rightarrow> Loxone \<Rightarrow> Loxone"
  and handleDelayedStateChange ::
    "(StateValue \<Rightarrow> StateValue) \<Rightarrow> string \<Rightarrow> nat \<Rightarrow> Loxone \<Rightarrow> Loxone"
  and checkStateForAck ::
    "(StateValue \<Rightarrow> StateValue) \<Rightarrow> string \<Rightarrow> Loxone \<Rightarrow> Loxone"
  and setStateAck ::
    "(StateValue \<Rightarrow> StateValue) \<Rightarrow> string \<Rightarrow> StateValue \<Rightarrow> Loxone \<Rightarrow> Loxone"
where
  "handleStateChange pI ident r val0 s =
     (let os = opts (listenEntries s r);
          v = coerce pI os val0
      in if optNotIfEqual os \<and> strictEq (currentStateValues s ident) v then
           setStateAck pI ident v (log Debug (MsgUnchanged ident v) s)
         else
           let s1 = (if \<not> optSelfAck os then
                       let (h, s') = setTimeout (AckTimeoutCb ident r) (optAckTimeoutMs os) s
                       in updListenEntry r (\<lambda>e. e\<lparr>ackTimer := Some h\<rparr>) s'
                     else s);
               s2 = emit (ListenerCall r (currentStateValues s1 ident) v) s1
           in if optSelfAck os then
                setStateAck pI ident v (log Debug (MsgSelfAck ident v) s2)
              else s2)"
| "handleDelayedStateChange pI ident r s =
     (if queuedVal (listenEntries s r) \<noteq> VNull then
        let s1 = log Debug (MsgHandlingDelayed ident (queuedVal (listenEntries s r))) s;
            s2 = handleStateChange pI ident r (queuedVal (listenEntries s1 r)) s1
        in updListenEntry r (\<lambda>e. e\<lparr>queuedVal := VNull\<rparr>) s2
      else s)"
| "checkStateForAck pI ident s =
     (case map_of (stateChangeListeners s) ident of
        Some r \<Rightarrow>
          (case ackTimer (listenEntries s r) of
             Some h \<Rightarrow>
               let s1 = log Debug (MsgClearingAckTimer ident) s;
                   s2 = clearTimeout h s1;
                   s3 = updListenEntry r (\<lambda>e. e\<lparr>ackTimer := None\<rparr>) s2
               in handleDelayedStateChange pI ident r s3
           | None \<Rightarrow> log Debug (MsgNoAckTimer ident) s)
      | None \<Rightarrow> log Silly (MsgNoListener ident) s)"
| "setStateAck pI ident v s =
     (let keyId = namespace s @ ''.'' @ ident;
          s1 = s\<lparr>currentStateValues := (currentStateValues s)(keyId \<mapsto> v)\<rparr>;
          s2 = checkStateForAck pI keyId s1
      in emit (SetStateAsync ident v) s2)"
  by pat_completeness auto

termination
proof (relation "measure (\<lambda>x. case x of
      Inl (Inl (pI, ident, r, v, s)) \<Rightarrow> 4 * longer (Suc (length ident)) (stateChangeListeners s) + 2
    | Inl (Inr (pI, ident, r, s)) \<Rightarrow> 4 * longer (Suc (length ident)) (stateChangeListeners s) + 3
    | Inr (Inl (pI, ident, s)) \<Rightarrow> 4 * longer (length ident) (stateChangeListeners s)
    | Inr (Inr (pI, ident, v, s)) \<Rightarrow>
        4 * longer (length (namespace s) + 1 + length ident) (stateChangeListeners s) + 1)",
    goal_cases)
  case 1
  show ?case by simp
next
  case (2 pI ident r val0 s os v)
  have "longer (length (namespace s) + 1 + length ident) (stateChangeListeners s)
          \<le> longer (Suc (length ident)) (stateChangeListeners s)"
    by (rule longer_mono) simp
  then show ?case by (simp add: log_def emit_def)
next
  case (3 pI ident r val0 s os v s1 s2)
  have "longer (length (namespace s) + 1 + length ident) (stateChangeListeners s)
          \<le> longer (Suc (length ident)) (stateChangeListeners s)"
    by (rule longer_mono) simp
  with 3 show ?case
    by (simp add: log_def emit_def setTimeout_def updListenEntry_def split: prod.splits)
next
  case (4 pI ident r s s1)
  then show ?case by (simp add: log_def emit_def)
next
  case (5 pI ident s r h s1 s2 s3)
  from longer_less [OF 5(1)] 5 show ?case
    by (simp add: log_def emit_def clearTimeout_def updListenEntry_def)
next
  case (6 pI ident v s keyId s1)
  then show ?case by simp
qed

declare handleStateChange.simps [simp del] handleDelayedStateChange.simps [simp del]
  checkStateForAck.simps [simp del] setStateAck.simps [simp del]

text \<open>
  \<^verbatim>\<open>addStateChangeListener\<close> stores a new entry object under the identifier prefixed
  with the namespace; an entry stored there before stays in the store, where a timer
  callback that captured it still finds it.
\<close>

definition addStateChangeListener ::
  "string \<Rightarrow> StateChangeListenerOpts option \<Rightarrow> Loxone \<Rightarrow> Loxone" where
  "addStateChangeListener ident os s =
     (let r = nextListenEntry s
      in s\<lparr>listenEntries := (listenEntries s)(r := \<lparr>opts = os, queuedVal = VNull, ackTimer = None\<rparr>),
           nextListenEntry := Suc r,
           stateChangeListeners :=
             AList.update (namespace s @ ''.'' @ ident) r (stateChangeListeners s)\<rparr>)"

text \<open>
  \<^verbatim>\<open>onStateChange\<close>, called by the host platform for every change of a subscribed
  state; \<open>None\<close> is a deleted state.
\<close>

definition onStateChange ::
  "(StateValue \<Rightarrow> StateValue) \<Rightarrow> string \<Rightarrow> State option \<Rightarrow> Loxone \<Rightarrow> Loxone" where
  "onStateChange pI ident state s =
     (case state of
        None \<Rightarrow> s
      | Some st \<Rightarrow>
          if ident = [] \<or> ack st then s
          else if str_includes ident ''.info.'' then s
          else
            let s1 = log Debug (MsgStateChange ident st) s in
            (case map_of (stateChangeListeners s1) ident of
               None \<Rightarrow>
                 let s2 = log Error (MsgUnsupportedStateChange ident) s1
                 in if ident \<notin> reportedUnsupportedStateChanges s2
                    then s2\<lparr>reportedUnsupportedStateChanges :=
                              insert ident (reportedUnsupportedStateChanges s2)\<rparr>
                    else s2
             | Some r \<Rightarrow>
                 if \<not> lxConnected s1 then
                   incInfoState ''info.stateChangesDiscarded'' None None
                     (log Warn (MsgWhileDisconnected ident) s1)
                 else
                   (case ackTimer (listenEntries s1 r) of
                      Some h \<Rightarrow>
                        let s2 =
                              (if queuedVal (listenEntries s1 r) \<noteq> VNull then
                                 incInfoState ''info.stateChangesDiscarded'' None None
                                   (log Warn (MsgDiscarding ident (queuedVal (listenEntries s1 r))) s1)
                               else
                                 incInfoState ''info.stateChangesDelayed'' None None
                                   (log Warn (MsgDelaying ident (val st)) s1))
                        in updListenEntry r (\<lambda>e. e\<lparr>queuedVal := val st\<rparr>) s2
                    | None \<Rightarrow> handleStateChange pI ident r (val st) s1)))"

text \<open>The callback of the timer that \<^verbatim>\<open>handleStateChange\<close> starts.\<close>

definition ackTimeout :: "(StateValue \<Rightarrow> StateValue) \<Rightarrow> string \<Rightarrow> nat \<Rightarrow> Loxone \<Rightarrow> Loxone" where
  "ackTimeout pI ident r s =
     (let s1 = log Warn (MsgTimeoutForAck ident) s;
          s2 = incInfoState ''info.ackTimeouts'' (Some ident) None s1;
          s3 = updListenEntry r (\<lambda>e. e\<lparr>ackTimer := None\<rparr>) s2
      in handleDelayedStateChange pI ident r s3)"

subsection \<open>Event handlers and the event queue\<close>

text \<open>
  The loop of \<^verbatim>\<open>removeStateEventHandler\<close>: after \<^verbatim>\<open>splice(i, 1)\<close> the index still
  advances, so the registration that moved into place \<open>i\<close> is not examined.
\<close>

fun removeLoop :: "string \<Rightarrow> StateEventRegistration list \<Rightarrow> bool \<times> StateEventRegistration list" where
  "removeLoop n [] = (False, [])"
| "removeLoop n [x] = (if name x = Some n then (True, []) else (False, [x]))"
| "removeLoop n (x # y # rest) =
     (if name x = Some n
      then (let (found, l) = removeLoop n rest in (True, y # l))
      else (let (found, l) = removeLoop n (y # rest) in (found, x # l)))"

definition removeStateEventHandler :: "string \<Rightarrow> string \<Rightarrow> Loxone \<Rightarrow> bool \<times> Loxone" where
  "removeStateEventHandler u n s =
     (case stateEventHandlers s u of
        None \<Rightarrow> (False, s)
      | Some regs \<Rightarrow>
          if n = [] then (False, s)
          else let (found, regs') = removeLoop n regs
               in (found, s\<lparr>stateEventHandlers := (stateEventHandlers s)(u \<mapsto> regs')\<rparr>))"

definition addStateEventHandler ::
  "string \<Rightarrow> StateEventHandler \<Rightarrow> string option \<Rightarrow> Loxone \<Rightarrow> Loxone" where
  "addStateEventHandler u eventHandler n s =
     (let s1 = (if stateEventHandlers s u = None
                then s\<lparr>stateEventHandlers := (stateEventHandlers s)(u \<mapsto> [])\<rparr>
                else s);
          s2 = (case n of
                  Some nm \<Rightarrow> if nm \<noteq> [] then snd (removeStateEventHandler u nm s1) else s1
                | None \<Rightarrow> s1)
      in s2\<lparr>stateEventHandlers :=
              (stateEventHandlers s2)
                (u \<mapsto> (case stateEventHandlers s2 u of None \<Rightarrow> [] | Some regs \<Rightarrow> regs)
                        @ [\<lparr>name = n, handler = eventHandler\<rparr>])\<rparr>)"

text \<open>
  One handler call inside the \<^verbatim>\<open>try\<close> of \<^verbatim>\<open>handleEvent\<close>: the steps of the handler
  until it returns or throws; the \<^verbatim>\<open>catch\<close> logs the error.
\<close>

fun runHandler :: "(StateValue \<Rightarrow> StateValue) \<Rightarrow> string \<Rightarrow> HandlerStep list \<Rightarrow> Loxone \<Rightarrow> Loxone" where
  "runHandler pI u [] s = s"
| "runHandler pI u (CallSetStateAck ident v # steps) s = runHandler pI u steps (setStateAck pI ident v s)"
| "runHandler pI u (Throw # steps) s = log Error (MsgHandlerError u) s"

definition handleEvent :: "(StateValue \<Rightarrow> StateValue) \<Rightarrow> LoxoneEvent \<Rightarrow> Loxone \<Rightarrow> Loxone" where
  "handleEvent pI e s =
     (case stateEventHandlers s (uuid e) of
        None \<Rightarrow>
          incInfoState ''info.unknownEvents'' (Some (uuid e)) (Some (evt e))
            (log Debug (MsgUnknownEvent (uuid e) (evt e)) s)
      | Some stateEventHandlerList \<Rightarrow>
          foldl (\<lambda>s' item. runHandler pI (uuid e) (handler item (evt e)) s') s stateEventHandlerList)"

subsection \<open>What the acknowledgement path and the counters leave alone\<close>

text \<open>
  The functions so far change only the cached values, the two stores, the timers and
  the trace. \<open>core\<close> blanks these fields, so that \<open>core (f s) = core s\<close> says that
  \<open>f\<close> leaves every other field as it is.
\<close>

definition core :: "Loxone \<Rightarrow> Loxone" where
  "core s = s\<lparr>currentStateValues := Map.empty, listenEntries := (\<lambda>r. undefined),
              infoEntries := (\<lambda>r. undefined), timers := [], nextTimeout := 0, trace := []\<rparr>"

lemma core_fields:
  assumes "core s' = core s"
  shows "namespace s' = namespace s" and "socket s' = socket s"
    and "stateChangeListeners s' = stateChangeListeners s"
    and "nextListenEntry s' = nextListenEntry s"
    and "stateEventHandlers s' = stateEventHandlers s"
    and "eventsQueue s' = eventsQueue s" and "runQueue s' = runQueue s"
    and "queueRunning s' = queueRunning s"
    and "reportedUnsupportedStateChanges s' = reportedUnsupportedStateChanges s"
    and "reconnectTimer s' = reconnectTimer s"
    and "connectionInProgress s' = connectionInProgress s"
    and "lxConnected s' = lxConnected s" and "info s' = info s"
    and "nextInfoEntry s' = nextInfoEntry s" and "now s' = now s"
proof -
  have f: "\<And>g. g (core s') = g (core s)" using assms by simp
  show "namespace s' = namespace s" using f [of namespace] by (simp add: core_def)
  show "socket s' = socket s" using f [of socket] by (simp add: core_def)
  show "stateChangeListeners s' = stateChangeListeners s"
    using f [of stateChangeListeners] by (simp add: core_def)
  show "nextListenEntry s' = nextListenEntry s" using f [of nextListenEntry] by (simp add: core_def)
  show "stateEventHandlers s' = stateEventHandlers s"
    using f [of stateEventHandlers] by (simp add: core_def)
  show "eventsQueue s' = eventsQueue s" using f [of eventsQueue] by (simp add: core_def)
  show "runQueue s' = runQueue s" using f [of runQueue] by (simp add: core_def)
  show "queueRunning s' = queueRunning s" using f [of queueRunning] by (simp add: core_def)
  show "reportedUnsupportedStateChanges s' = reportedUnsupportedStateChanges s"
    using f [of reportedUnsupportedStateChanges] by (simp add: core_def)
  show "reconnectTimer s' = reconnectTimer s" using f [of reconnectTimer] by (simp add: core_def)
  show "connectionInProgress s' = connectionInProgress s"
    using f [of connectionInProgress] by (simp add: core_def)
  show "lxConnected s' = lxConnected s" using f [of lxConnected] by (simp add: core_def)
  show "info s' = info s" using f [of info] by (simp add: core_def)
  show "nextInfoEntry s' = nextInfoEntry s" using f [of nextInfoEntry] by (simp add: core_def)
  show "now s' = now s" using f [of now] by (simp add: core_def)
qed

lemma core_emit [simp]: "core (emit e s) = core s"
  by (simp add: core_def emit_def)

lemma core_log [simp]: "core (log l m s) = core s"
  by (simp add: log_def)

lemma core_setTimeout [simp]: "core (snd (setTimeout c d s)) = core s"
  by (simp add: core_def setTimeout_def)

lemma core_clearTimeout [simp]: "core (clearTimeout h s) = core s"
  by (simp add: core_def clearTimeout_def)

lemma core_updInfoEntry [simp]: "core (updInfoEntry r f s) = core s"
  by (simp add: core_def updInfoEntry_def)

lemma core_updListenEntry [simp]: "core (updListenEntry r f s) = core s"
  by (simp add: core_def updListenEntry_def)

lemma core_currentStateValues [simp]: "core (s\<lparr>currentStateValues := m\<rparr>) = core s"
  by (simp add: core_def)


lemma core_setInfoStateIfChanged [simp]: "core (setInfoStateIfChanged ident r sd s) = core s"
  by (simp add: setInfoStateIfChanged_def Let_def case_prod_beta split: option.splits)

lemma core_infoTimeout [simp]: "core (infoTimeout ident r s) = core s"
  by (simp add: infoTimeout_def Let_def)

lemma core_incInfoState [simp]: "core (incInfoState ident d v s) = core s"
  by (simp add: incInfoState_def getInfoEntry_def Let_def split: option.splits)

lemma core_ack:
  "core (handleStateChange pI ident r v s) = core s"
  "core (handleDelayedStateChange pI ident r s) = core s"
  "core (checkStateForAck pI ident s) = core s"
  "core (setStateAck pI ident v s) = core s"
proof (induction pI ident r v s and pI ident r s and pI ident s and pI ident v s
    rule: handleStateChange_handleDelayedStateChange_checkStateForAck_setStateAck.induct)
  case (1 pI ident r val0 s)
  then show ?case
    by (subst handleStateChange.simps) (simp add: Let_def case_prod_beta)
next
  case (2 pI ident r s)
  then show ?case
    by (subst handleDelayedStateChange.simps) (simp add: Let_def)
next
  case (3 pI ident s)
  then show ?case
    by (subst checkStateForAck.simps) (simp add: Let_def split: option.splits)
next
  case (4 pI ident v s)
  then show ?case
    by (subst setStateAck.simps) (simp add: Let_def)
qed


declare core_ack [simp]

lemma core_runHandler [simp]: "core (runHandler pI u steps s) = core s"
  by (induction pI u steps s rule: runHandler.induct) simp_all

lemma core_foldl:
  assumes "\<And>x t. core (f t x) = core t"
  shows "core (foldl f s xs) = core s"
  using assms by (induction xs arbitrary: s) simp_all

lemma core_handleEvent [simp]: "core (handleEvent pI e s) = core s"
  by (simp add: handleEvent_def core_foldl split: option.splits)

lemma emit_fields [simp]:
  "namespace (emit e s) = namespace s"
  "socket (emit e s) = socket s"
  "currentStateValues (emit e s) = currentStateValues s"
  "stateChangeListeners (emit e s) = stateChangeListeners s"
  "listenEntries (emit e s) = listenEntries s"
  "nextListenEntry (emit e s) = nextListenEntry s"
  "stateEventHandlers (emit e s) = stateEventHandlers s"
  "eventsQueue (emit e s) = eventsQueue s"
  "runQueue (emit e s) = runQueue s"
  "queueRunning (emit e s) = queueRunning s"
  "reportedUnsupportedStateChanges (emit e s) = reportedUnsupportedStateChanges s"
  "reconnectTimer (emit e s) = reconnectTimer s"
  "connectionInProgress (emit e s) = connectionInProgress s"
  "lxConnected (emit e s) = lxConnected s"
  "info (emit e s) = info s"
  "infoEntries (emit e s) = infoEntries s"
  "nextInfoEntry (emit e s) = nextInfoEntry s"
  "now (emit e s) = now s"
  "timers (emit e s) = timers s"
  "nextTimeout (emit e s) = nextTimeout s"
  "trace (emit e s) = trace s @ [e]"
  by (simp_all add: emit_def)

lemma log_fields [simp]:
  "namespace (log l m s) = namespace s"
  "socket (log l m s) = socket s"
  "currentStateValues (log l m s) = currentStateValues s"
  "stateChangeListeners (log l m s) = stateChangeListeners s"
  "listenEntries (log l m s) = listenEntries s"
  "nextListenEntry (log l m s) = nextListenEntry s"
  "stateEventHandlers (log l m s) = stateEventHandlers s"
  "eventsQueue (log l m s) = eventsQueue s"
  "runQueue (log l m s) = runQueue s"
  "queueRunning (log l m s) = queueRunning s"
  "reportedUnsupportedStateChanges (log l m s) = reportedUnsupportedStateChanges s"
  "reconnectTimer (log l m s) = reconnectTimer s"
  "connectionInProgress (log l m s) = connectionInProgress s"
  "lxConnected (log l m s) = lxConnected s"
  "info (log l m s) = info s"
  "infoEntries (log l m s) = infoEntries s"
  "nextInfoEntry (log l m s) = nextInfoEntry s"
  "now (log l m s) = now s"
  "timers (log l m s) = timers s"
  "nextTimeout (log l m s) = nextTimeout s"
  "trace (log l m s) = trace s @ [Log l m]"
  by (simp_all add: log_def)

lemma setTimeout_fields [simp]:
  "namespace (snd (setTimeout c d s)) = namespace s"
  "socket (snd (setTimeout c d s)) = socket s"
  "currentStateValues (snd (setTimeout c d s)) = currentStateValues s"
  "stateChangeListeners (snd (setTimeout c d s)) = stateChangeListeners s"
  "listenEntries (snd (setTimeout c d s)) = listenEntries s"
  "nextListenEntry (snd (setTimeout c d s)) = nextListenEntry s"
  "stateEventHandlers (snd (setTimeout c d s)) = stateEventHandlers s"
  "eventsQueue (snd (setTimeout c d s)) = eventsQueue s"
  "runQueue (snd (setTimeout c d s)) = runQueue s"
  "queueRunning (snd (setTimeout c d s)) = queueRunning s"
  "reportedUnsupportedStateChanges (snd (setTimeout c d s)) = reportedUnsupportedStateChanges s"
  "reconnectTimer (snd (setTimeout c d s)) = reconnectTimer s"
  "connectionInProgress (snd (setTimeout c d s)) = connectionInProgress s"
  "lxConnected (snd (setTimeout c d s)) = lxConnected s"
  "info (snd (setTimeout c d s)) = info s"
  "infoEntries (snd (setTimeout c d s)) = infoEntries s"
  "nextInfoEntry (snd (setTimeout c d s)) = nextInfoEntry s"
  "now (snd (setTimeout c d s)) = now s"
  "trace (snd (setTimeout c d s)) = trace s"
  "fst (setTimeout c d s) = nextTimeout s"
  "timers (snd (setTimeout c d s)) = timers s @ [\<lparr>handle = nextTimeout s, due = now s + d, cb = c\<rparr>]"
  "nextTimeout (snd (setTimeout c d s)) = Suc (nextTimeout s)"
  by (simp_all add: setTimeout_def)

lemma clearTimeout_fields [simp]:
  "namespace (clearTimeout h s) = namespace s"
  "socket (clearTimeout h s) = socket s"
  "currentStateValues (clearTimeout h s) = currentStateValues s"
  "stateChangeListeners (clearTimeout h s) = stateChangeListeners s"
  "listenEntries (clearTimeout h s) = listenEntries s"
  "nextListenEntry (clearTimeout h s) = nextListenEntry s"
  "stateEventHandlers (clearTimeout h s) = stateEventHandlers s"
  "eventsQueue (clearTimeout h s) = eventsQueue s"
  "runQueue (clearTimeout h s) = runQueue s"
  "queueRunning (clearTimeout h s) = queueRunning s"
  "reportedUnsupportedStateChanges (clearTimeout h s) = reportedUnsupportedStateChanges s"
  "reconnectTimer (clearTimeout h s) = reconnectTimer s"
  "connectionInProgress (clearTimeout h s) = connectionInProgress s"
  "lxConnected (clearTimeout h s) = lxConnected s"
  "info (clearTimeout h s) = info s"
  "infoEntries (clearTimeout h s) = infoEntries s"
  "nextInfoEntry (clearTimeout h s) = nextInfoEntry s"
  "now (clearTimeout h s) = now s"
  "nextTimeout (clearTimeout h s) = nextTimeout s"
  "trace (clearTimeout h s) = trace s"
  "timers (clearTimeout h s) = filter (\<lambda>t. handle t \<noteq> h) (timers s)"
  by (simp_all add: clearTimeout_def)

lemma updInfoEntry_fields [simp]:
  "namespace (updInfoEntry r f s) = namespace s"
  "socket (updInfoEntry r f s) = socket s"
  "currentStateValues (updInfoEntry r f s) = currentStateValues s"
  "stateChangeListeners (updInfoEntry r f s) = stateChangeListeners s"
  "listenEntries (updInfoEntry r f s) = listenEntries s"
  "nextListenEntry (updInfoEntry r f s) = nextListenEntry s"
  "stateEventHandlers (updInfoEntry r f s) = stateEventHandlers s"
  "eventsQueue (updInfoEntry r f s) = eventsQueue s"
  "runQueue (updInfoEntry r f s) = runQueue s"
  "queueRunning (updInfoEntry r f s) = queueRunning s"
  "reportedUnsupportedStateChanges (updInfoEntry r f s) = reportedUnsupportedStateChanges s"
  "reconnectTimer (updInfoEntry r f s) = reconnectTimer s"
  "connectionInProgress (updInfoEntry r f s) = connectionInProgress s"
  "lxConnected (updInfoEntry r f s) = lxConnected s"
  "info (updInfoEntry r f s) = info s"
  "nextInfoEntry (updInfoEntry r f s) = nextInfoEntry s"
  "now (updInfoEntry r f s) = now s"
  "timers (updInfoEntry r f s) = timers s"
  "nextTimeout (updInfoEntry r f s) = nextTimeout s"
  "trace (updInfoEntry r f s) = trace s"
  "infoEntries (updInfoEntry r f s) = (infoEntries s)(r := f (infoEntries s r))"
  by (simp_all add: updInfoEntry_def)

lemma updListenEntry_fields [simp]:
  "namespace (updListenEntry r f s) = namespace s"
  "socket (updListenEntry r f s) = socket s"
  "currentStateValues (updListenEntry r f s) = currentStateValues s"
  "stateChangeListeners (updListenEntry r f s) = stateChangeListeners s"
  "nextListenEntry (updListenEntry r f s) = nextListenEntry s"
  "stateEventHandlers (updListenEntry r f s) = stateEventHandlers s"
  "eventsQueue (updListenEntry r f s) = eventsQueue s"
  "runQueue (updListenEntry r f s) = runQueue s"
  "queueRunning (updListenEntry r f s) = queueRunning s"
  "reportedUnsupportedStateChanges (updListenEntry r f s) = reportedUnsupportedStateChanges s"
  "reconnectTimer (updListenEntry r f s) = reconnectTimer s"
  "connectionInProgress (updListenEntry r f s) = connectionInProgress s"
  "lxConnected (updListenEntry r f s) = lxConnected s"
  "info (updListenEntry r f s) = info s"
  "infoEntries (updListenEntry r f s) = infoEntries s"
  "nextInfoEntry (updListenEntry r f s) = nextInfoEntry s"
  "now (updListenEntry r f s) = now s"
  "timers (updListenEntry r f s) = timers s"
  "nextTimeout (updListenEntry r f s) = nextTimeout s"
  "trace (updListenEntry r f s) = trace s"
  "listenEntries (updListenEntry r f s) = (listenEntries s)(r := f (listenEntries s r))"
  by (simp_all add: updListenEntry_def)

lemma setConnectionState_fields [simp]:
  "namespace (setConnectionState c s) = namespace s"
  "socket (setConnectionState c s) = socket s"
  "currentStateValues (setConnectionState c s) = currentStateValues s"
  "stateChangeListeners (setConnectionState c s) = stateChangeListeners s"
  "listenEntries (setConnectionState c s) = listenEntries s"
  "nextListenEntry (setConnectionState c s) = nextListenEntry s"
  "stateEventHandlers (setConnectionState c s) = stateEventHandlers s"
  "eventsQueue (setConnectionState c s) = eventsQueue s"
  "runQueue (setConnectionState c s) = runQueue s"
  "queueRunning (setConnectionState c s) = queueRunning s"
  "reportedUnsupportedStateChanges (setConnectionState c s) = reportedUnsupportedStateChanges s"
  "reconnectTimer (setConnectionState c s) = reconnectTimer s"
  "connectionInProgress (setConnectionState c s) = connectionInProgress s"
  "info (setConnectionState c s) = info s"
  "infoEntries (setConnectionState c s) = infoEntries s"
  "nextInfoEntry (setConnectionState c s) = nextInfoEntry s"
  "now (setConnectionState c s) = now s"
  "timers (setConnectionState c s) = timers s"
  "nextTimeout (setConnectionState c s) = nextTimeout s"
  "trace (setConnectionState c s) = trace s @ [SetConnection c]"
  "lxConnected (setConnectionState c s) = c"
  by (simp_all add: setConnectionState_def)

text \<open>
  \<^verbatim>\<open>handleAnyEvent\<close> is the delivery callback of the transport: it enqueues the
  event and calls \<^verbatim>\<open>handleEventQueue\<close>. While \<^verbatim>\<open>handleEventQueue\<close> awaits the handling
  of a dequeued event, the transport may deliver further events through the same
  callback. The parameter \<open>arrivals\<close> lists them: its \<open>k\<close>-th element holds the
  events delivered while the \<open>k\<close>-th dequeued event of this call is being handled
  (none once the list is exhausted). \<open>drain\<close> is the \<^verbatim>\<open>while\<close> loop.
\<close>

function handleEventQueue ::
    "(StateValue \<Rightarrow> StateValue) \<Rightarrow> LoxoneEvent list list \<Rightarrow> Loxone \<Rightarrow> Loxone"
  and drain ::
    "(StateValue \<Rightarrow> StateValue) \<Rightarrow> LoxoneEvent list list \<Rightarrow> Loxone \<Rightarrow> Loxone"
  and handleAnyEvent ::
    "(StateValue \<Rightarrow> StateValue) \<Rightarrow> LoxoneEvent list list \<Rightarrow> LoxoneEvent \<Rightarrow> Loxone \<Rightarrow> Loxone"
where
  "handleEventQueue pI arrivals s =
     (if \<not> runQueue s then log Silly MsgQueueStopped s
      else if queueRunning s then log Silly MsgQueueInProgress s
      else
        let s1 = s\<lparr>queueRunning := True\<rparr>;
            s2 = log Silly (MsgProcessing (length (eventsQueue s1))) s1;
            s3 = drain pI arrivals s2;
            s4 = s3\<lparr>queueRunning := False\<rparr>
        in log Silly MsgQueueDone s4)"
| "drain pI arrivals s =
     (case eventsQueue s of
        [] \<Rightarrow> s
      | e # q \<Rightarrow>
          let s1 = s\<lparr>eventsQueue := q\<rparr>;
              s2 = log Silly (MsgDequeued (uuid e)) s1;
              s3 = handleEvent pI e s2
          in (case arrivals of
                [] \<Rightarrow> drain pI [] s3
              | batch # later \<Rightarrow>
                  drain pI later (foldl (\<lambda>s' a. handleAnyEvent pI later a s') s3 batch)))"
| "handleAnyEvent pI arrivals e s =
     (let s1 = log Silly (MsgReceived (uuid e) (evt e)) s;
          s2 = s1\<lparr>eventsQueue := eventsQueue s1 @ [e]\<rparr>
      in handleEventQueue pI arrivals s2)"
  by pat_completeness auto
termination
  apply (relation "inv_image (less_than <*lex*> less_than <*lex*> less_than) (\<lambda>x. case x of
      Inl (pI, arrivals, s) \<Rightarrow> (length arrivals, length (eventsQueue s), 1::nat)
    | Inr (Inl (pI, arrivals, s)) \<Rightarrow> (length arrivals, length (eventsQueue s), 0)
    | Inr (Inr (pI, arrivals, e, s)) \<Rightarrow> (length arrivals, Suc (length (eventsQueue s)), 2))")
     apply (intro wf_inv_image wf_lex_prod wf_less_than)
    apply (simp_all add: core_fields(6) [OF core_handleEvent])
  done

declare handleEventQueue.simps [simp del] drain.simps [simp del] handleAnyEvent.simps [simp del]

text \<open>
  The delegate \<^verbatim>\<open>socketOnEventReceived\<close> of the transport: the counter of received
  messages is incremented and every event of the message is handed to
  \<^verbatim>\<open>handleAnyEvent\<close>, unless the type of the message is none of those the \<^verbatim>\<open>switch\<close>
  names. An event is given with the payload that its type selects
  (\<^verbatim>\<open>evt.value\<close>, \<^verbatim>\<open>evt.text\<close> or \<^verbatim>\<open>evt\<close>).
\<close>

datatype BinaryEventType = EVENT | EVENTTEXT | DAYTIMER | WEATHER

definition socketOnEventReceived ::
  "(StateValue \<Rightarrow> StateValue) \<Rightarrow> LoxoneEvent list list \<Rightarrow> LoxoneEvent list \<Rightarrow> BinaryEventType
     \<Rightarrow> Loxone \<Rightarrow> Loxone" where
  "socketOnEventReceived pI arrivals events ty s =
     (let s1 = log Silly MsgSocketEventReceived s;
          s2 = incInfoState ''info.messagesReceived'' None None s1
      in case ty of
           DAYTIMER \<Rightarrow> s2
         | _ \<Rightarrow> foldl (\<lambda>s' e. handleAnyEvent pI arrivals e s') s2 events)"

subsection \<open>The connection\<close>

text \<open>
  What the surroundings do during one connection attempt. \<open>openOk\<close>: \<^verbatim>\<open>socket.open\<close>
  resolves. \<open>structureFile\<close>: \<open>None\<close> when fetching or parsing the structure file
  throws; otherwise the registrations that the loaders of the structure file perform
  through \<^verbatim>\<open>addStateChangeListener\<close> and \<^verbatim>\<open>addStateEventHandler\<close>, and whether a loader
  throws after them. \<open>enableOk\<close>: the command that enables status updates resolves.
  \<open>arrivals\<close>: the events delivered while the queue is replayed.
\<close>

datatype Binding =
    BindStateChangeListener string "StateChangeListenerOpts option"
  | BindStateEventHandler string StateEventHandler "string option"

record StructureFile =
  bindings :: "Binding list"
  loadThrows :: bool

record ConnectEnv =
  openOk :: bool
  structureFile :: "StructureFile option"
  enableOk :: bool
  arrivals :: "LoxoneEvent list list"

definition reconnect :: "Loxone \<Rightarrow> Loxone" where
  "reconnect s =
     (if reconnectTimer s \<noteq> None then log Debug MsgReconnectTimerRunning s
      else if connectionInProgress s then log Debug MsgReconnectInProgress s
      else
        let (h, s1) = setTimeout ReconnectCb reconnectTimeoutMs s
        in s1\<lparr>reconnectTimer := Some h\<rparr>)"

fun applyBinding :: "Binding \<Rightarrow> Loxone \<Rightarrow> Loxone" where
  "applyBinding (BindStateChangeListener ident os) s = addStateChangeListener ident os s"
| "applyBinding (BindStateEventHandler u h n) s = addStateEventHandler u h n s"

text \<open>
  \<^verbatim>\<open>loadStructureFileAsync\<close>: \<open>Inl\<close> is the state in which it throws, \<open>Inr\<close> the state
  in which it returns. The five loaders between the reset of the handler table and the
  replay of the queue are the registrations of the structure file.
\<close>

definition loadStructureFileAsync ::
  "(StateValue \<Rightarrow> StateValue) \<Rightarrow> LoxoneEvent list list \<Rightarrow> StructureFile \<Rightarrow> Loxone
     \<Rightarrow> Loxone + Loxone" where
  "loadStructureFileAsync pI arr data s =
     (let s1 = s\<lparr>stateEventHandlers := Map.empty\<rparr>;
          s2 = foldl (\<lambda>s' b. applyBinding b s') s1 (bindings data)
      in if loadThrows data then Inl s2
         else
           let s3 = s2\<lparr>runQueue := True\<rparr>
           in Inr (handleEventQueue pI arr s3))"

text \<open>
  A call on the socket inside a \<^verbatim>\<open>try\<close>: it throws when the socket object has been
  deleted and when the transport fails (\<open>ok\<close> is false); the result says whether it
  returned.
\<close>

definition socketCall :: "Effect \<Rightarrow> bool \<Rightarrow> Loxone \<Rightarrow> bool \<times> Loxone" where
  "socketCall e ok s = (if socket s then (ok, emit e s) else (False, s))"

definition loadStructureFile ::
  "(StateValue \<Rightarrow> StateValue) \<Rightarrow> ConnectEnv \<Rightarrow> Loxone \<Rightarrow> bool \<times> Loxone" where
  "loadStructureFile pI env s =
     (case socketCall (SocketSend ''data/LoxAPP3.json'') (structureFile env \<noteq> None) s of
        (sent, s1) \<Rightarrow>
          (case (sent, structureFile env) of
             (True, Some file) \<Rightarrow>
               let s2 = log Silly MsgStructureFile s1;
                   s3 = log Info MsgGotStructureFile s2
               in (case loadStructureFileAsync pI (arrivals env) file s3 of
                     Inr s4 \<Rightarrow> (True, log Debug MsgStructureLoaded s4)
                   | Inl s4 \<Rightarrow> (False, log Error MsgCouldntLoadStructureFile s4))
           | _ \<Rightarrow> (False, log Error MsgCouldntGetStructureFile s1)))"

text \<open>
  \<^verbatim>\<open>connect\<close>, block by block. Each block takes the flag \<^verbatim>\<open>success\<close> and the state and
  returns both.
\<close>

definition connectOpen :: "ConnectEnv \<Rightarrow> Loxone \<Rightarrow> bool \<times> Loxone" where
  "connectOpen env s =
     (let s1 = log Info MsgTryingToConnect s;
          s2 = s1\<lparr>connectionInProgress := True\<rparr>
      in case socketCall SocketOpen (openOk env) s2 of
           (opened, s3) \<Rightarrow>
             if opened then (True, s3) else (False, log Error MsgCouldntOpenSocket s3))"

definition connectLoad ::
  "(StateValue \<Rightarrow> StateValue) \<Rightarrow> ConnectEnv \<Rightarrow> bool \<times> Loxone \<Rightarrow> bool \<times> Loxone" where
  "connectLoad pI env x =
     (case x of (success, s) \<Rightarrow> if success then loadStructureFile pI env s else (success, s))"

definition connectEnable :: "ConnectEnv \<Rightarrow> bool \<times> Loxone \<Rightarrow> bool \<times> Loxone" where
  "connectEnable env x =
     (case x of (success, s) \<Rightarrow>
        if success then
          (case socketCall (SocketSend ''jdev/sps/enablebinstatusupdate'') (enableOk env) s of
             (enabled, s1) \<Rightarrow>
               if enabled then (True, s1) else (False, log Error MsgCouldntEnableUpdates s1))
        else (success, s))"

definition connectFinish :: "bool \<times> Loxone \<Rightarrow> Loxone" where
  "connectFinish x =
     (case x of (success, s) \<Rightarrow>
        let s1 = s\<lparr>connectionInProgress := False\<rparr>
        in if \<not> success then
             let s2 = log Debug MsgConnectionFailed s1;
                 s3 = (if socket s2 then emit SocketClose s2 else s2)
             in reconnect s3
           else setConnectionState True s1)"

definition connect :: "(StateValue \<Rightarrow> StateValue) \<Rightarrow> ConnectEnv \<Rightarrow> Loxone \<Rightarrow> Loxone" where
  "connect pI env s =
     (if connectionInProgress s then log Warn MsgConnectionInProgress s
      else connectFinish (connectEnable env (connectLoad pI env (connectOpen env s))))"

text \<open>
  The callback of the reconnect timer. \<^verbatim>\<open>connect\<close> catches what its steps throw, so
  the \<^verbatim>\<open>catch\<close> of the callback is not reached.
\<close>

definition reconnectTimeout :: "(StateValue \<Rightarrow> StateValue) \<Rightarrow> ConnectEnv \<Rightarrow> Loxone \<Rightarrow> Loxone" where
  "reconnectTimeout pI env s = connect pI env (s\<lparr>reconnectTimer := None\<rparr>)"

text \<open>The delegate \<^verbatim>\<open>socketOnConnectionClosed\<close> of the transport.\<close>

definition socketOnConnectionClosed :: "SupportCode \<Rightarrow> Loxone \<Rightarrow> Loxone" where
  "socketOnConnectionClosed code s =
     (let s1 = log Info (MsgSocketClosed code) s;
          s2 = setConnectionState False s1;
          s3 = s2\<lparr>runQueue := False\<rparr>;
          s4 = (if length (eventsQueue s3) > 0
                then log Warn (MsgQueueNotEmpty (length (eventsQueue s3))) s3
                else s3);
          s5 = s4\<lparr>eventsQueue := []\<rparr>
      in if code \<noteq> WEBSOCKET_MANUAL_CLOSE then reconnect s5 else s5)"

text \<open>
  \<^verbatim>\<open>onReady\<close>: the counters are initialised from their persisted values, the
  acknowledged values of all states (\<open>allStates\<close>, as \<^verbatim>\<open>getStatesAsync\<close> returned them)
  are cached, the connection indicator is reset, the socket is created and the first
  connection attempt is made. \<^verbatim>\<open>onUnload\<close> closes and forgets the socket, calls the
  callback of the host and flushes the counters.
\<close>

fun storeAcknowledged :: "(string \<times> State option) list \<Rightarrow> Loxone \<Rightarrow> Loxone" where
  "storeAcknowledged [] s = s"
| "storeAcknowledged ((ident, st) # rest) s =
     storeAcknowledged rest
       (case st of
          Some st' \<Rightarrow>
            if ack st' then s\<lparr>currentStateValues := (currentStateValues s)(ident \<mapsto> val st')\<rparr>
            else s
        | None \<Rightarrow> s)"

definition onReady ::
  "(StateValue \<Rightarrow> StateValue) \<Rightarrow> (string \<Rightarrow> int option) \<Rightarrow> (string \<times> State option) list
     \<Rightarrow> ConnectEnv \<Rightarrow> Loxone \<Rightarrow> Loxone" where
  "onReady pI persisted allStates env s =
     (let s1 = initInfoStates persisted s;
          s2 = storeAcknowledged allStates s1;
          s3 = setConnectionState False s2;
          s4 = s3\<lparr>socket := True\<rparr>
      in connect pI env s4)"

definition onUnload :: "Loxone \<Rightarrow> Loxone" where
  "onUnload s =
     (let s1 = (if socket s then (emit SocketClose s)\<lparr>socket := False\<rparr> else s);
          s2 = emit UnloadCallback s1
      in flushInfoStates s2)"

subsection \<open>Timers and the passing of time\<close>

definition runCallback ::
  "(StateValue \<Rightarrow> StateValue) \<Rightarrow> ConnectEnv \<Rightarrow> Callback \<Rightarrow> Loxone \<Rightarrow> Loxone" where
  "runCallback pI env c s =
     (case c of
        AckTimeoutCb ident r \<Rightarrow> ackTimeout pI ident r s
      | InfoTimeoutCb ident r \<Rightarrow> infoTimeout ident r s
      | ReconnectCb \<Rightarrow> reconnectTimeout pI env s)"

text \<open>
  The timer that fires next: among the pending timers the one that is due first, the
  one set first among those due at the same time.
\<close>

fun earliest :: "Timeout list \<Rightarrow> Timeout option" where
  "earliest [] = None"
| "earliest (t # ts) =
     (case earliest ts of
        None \<Rightarrow> Some t
      | Some t' \<Rightarrow> if due t' < due t then Some t' else Some t)"

text \<open>
  \<open>fire t\<close> takes the timer off the list of pending timers, sets the clock to the time
  at which it is due (if that is not in the past) and runs its callback.
\<close>

definition fire ::
  "(StateValue \<Rightarrow> StateValue) \<Rightarrow> ConnectEnv \<Rightarrow> Timeout \<Rightarrow> Loxone \<Rightarrow> Loxone" where
  "fire pI env t s =
     runCallback pI env (cb t)
       (s\<lparr>timers := filter (\<lambda>t'. handle t' \<noteq> handle t) (timers s), now := max (now s) (due t)\<rparr>)"

text \<open>
  \<open>advance n t\<close> lets the time pass until \<open>t\<close>: it fires the timers that are due
  by then, one after the other, at most \<open>n\<close> of them; \<open>None\<close> says that more than \<open>n\<close>
  were due.
\<close>

fun advance ::
  "nat \<Rightarrow> (StateValue \<Rightarrow> StateValue) \<Rightarrow> ConnectEnv \<Rightarrow> nat \<Rightarrow> Loxone \<Rightarrow> Loxone option" where
  "advance n pI env t s =
     (case earliest (timers s) of
        None \<Rightarrow> Some (s\<lparr>now := max (now s) t\<rparr>)
      | Some tm \<Rightarrow>
          if due tm \<le> t then
            (case n of 0 \<Rightarrow> None | Suc m \<Rightarrow> advance m pI env t (fire pI env tm s))
          else Some (s\<lparr>now := max (now s) t\<rparr>))"

subsection \<open>The adapter after construction\<close>

text \<open>
  The fields as the constructor and the field initialisers of the class leave them;
  the namespace is given by the host. The stores hold no object yet.
\<close>

definition newAdapter :: "string \<Rightarrow> Loxone" where
  "newAdapter ns =
     \<lparr>namespace = ns, socket = False, currentStateValues = Map.empty,
      stateChangeListeners = [],
      listenEntries = (\<lambda>r. \<lparr>opts = None, queuedVal = VNull, ackTimer = None\<rparr>),
      nextListenEntry = 0, stateEventHandlers = Map.empty, eventsQueue = [],
      runQueue = False, queueRunning = False, reportedUnsupportedStateChanges = {},
      reconnectTimer = None, connectionInProgress = False, lxConnected = False,
      info = [],
      infoEntries = (\<lambda>r. \<lparr>ivalue = None, lastSet = None, timer = None, detailsMap = None\<rparr>),
      nextInfoEntry = 0, now = 0, timers = [], nextTimeout = 0, trace = []\<rparr>"

text \<open>What a step appended to the trace.\<close>

definition since :: "Loxone \<Rightarrow> Loxone \<Rightarrow> Effect list" where
  "since s s' = drop (length (trace s)) (trace s')"

lemma reconnect_arms:
  "reconnectTimer s = None \<Longrightarrow> \<not> connectionInProgress s \<Longrightarrow>
   reconnect s = s\<lparr>timers := timers s @ [\<lparr>handle = nextTimeout s, due = now s + 5000, cb = ReconnectCb\<rparr>],
                  nextTimeout := Suc (nextTimeout s), reconnectTimer := Some (nextTimeout s)\<rparr>"
  by (simp add: reconnect_def setTimeout_def reconnectTimeoutMs_def)

lemma reconnect_pending:
  "reconnectTimer s \<noteq> None \<Longrightarrow> reconnect s = log Debug MsgReconnectTimerRunning s"
  by (simp add: reconnect_def)

lemma reconnect_in_flight:
  "reconnectTimer s = None \<Longrightarrow> connectionInProgress s \<Longrightarrow>
   reconnect s = log Debug MsgReconnectInProgress s"
  by (simp add: reconnect_def)

subsection \<open>The close of the transport\<close>

text \<open>
  Claim C7. On a close reported by the transport the handler sets the connection
  state to false (and records it), stops the queue and empties it; it logs one warning
  with the number of discarded events, which is the length of the queue at that
  moment, when that length is not zero, and none when it is zero; and unless the
  code is the manual-close code it calls \<^verbatim>\<open>reconnect\<close>, which arms the retry timer
  of 5000 time units when none is pending and no attempt is in flight, and changes
  neither the timers nor the stored handle otherwise. With the manual-close code the
  timers and the stored handle stay as they are.
\<close>

theorem socketOnConnectionClosed_stops_queue_and_reconnects:
  "(let s' = socketOnConnectionClosed code s; n = length (eventsQueue s) in
      \<not> lxConnected s' \<and> \<not> runQueue s' \<and> eventsQueue s' = [] \<and>
      SetConnection False \<in> set (since s s') \<and>
      filter (\<lambda>e. \<exists>k. e = Log Warn (MsgQueueNotEmpty k)) (since s s')
        = (if n = 0 then [] else [Log Warn (MsgQueueNotEmpty n)]) \<and>
      (code = WEBSOCKET_MANUAL_CLOSE \<longrightarrow>
         timers s' = timers s \<and> reconnectTimer s' = reconnectTimer s) \<and>
      (code \<noteq> WEBSOCKET_MANUAL_CLOSE \<and> reconnectTimer s = None \<and> \<not> connectionInProgress s \<longrightarrow>
         timers s' = timers s @ [\<lparr>handle = nextTimeout s, due = now s + 5000, cb = ReconnectCb\<rparr>]
         \<and> reconnectTimer s' = Some (nextTimeout s)) \<and>
      (code \<noteq> WEBSOCKET_MANUAL_CLOSE \<and> (reconnectTimer s \<noteq> None \<or> connectionInProgress s) \<longrightarrow>
         timers s' = timers s \<and> reconnectTimer s' = reconnectTimer s))"
  unfolding Let_def since_def
  by (auto simp add: socketOnConnectionClosed_def Let_def reconnect_def setTimeout_def
        reconnectTimeoutMs_def setConnectionState_def log_def emit_def)

text \<open>
  A connected adapter with two events in its queue, closed with a code other than the
  manual one.
\<close>

definition closingExample :: Loxone where
  "closingExample =
     (newAdapter ''loxone.0'')
       \<lparr>socket := True, lxConnected := True, runQueue := True,
        eventsQueue := [\<lparr>uuid = ''u1'', evt = VNum 1\<rparr>, \<lparr>uuid = ''u2'', evt = VNum 0\<rparr>]\<rparr>"

theorem socketOnConnectionClosed_stops_queue_and_reconnects_witness:
  "\<not> lxConnected (socketOnConnectionClosed (OtherCode ''1006'') closingExample) \<and>
   \<not> runQueue (socketOnConnectionClosed (OtherCode ''1006'') closingExample) \<and>
   eventsQueue (socketOnConnectionClosed (OtherCode ''1006'') closingExample) = [] \<and>
   filter (\<lambda>e. \<exists>k. e = Log Warn (MsgQueueNotEmpty k))
     (since closingExample (socketOnConnectionClosed (OtherCode ''1006'') closingExample))
     = [Log Warn (MsgQueueNotEmpty 2)] \<and>
   timers (socketOnConnectionClosed (OtherCode ''1006'') closingExample)
     = [\<lparr>handle = 0, due = 5000, cb = ReconnectCb\<rparr>] \<and>
   reconnectTimer (socketOnConnectionClosed (OtherCode ''1006'') closingExample) = Some 0"
proof -
  have h: "OtherCode ''1006'' \<noteq> WEBSOCKET_MANUAL_CLOSE" "reconnectTimer closingExample = None"
    "\<not> connectionInProgress closingExample" "length (eventsQueue closingExample) = 2"
    "timers closingExample = []" "nextTimeout closingExample = 0" "now closingExample = 0"
    by (simp_all add: closingExample_def newAdapter_def)
  show ?thesis
    using socketOnConnectionClosed_stops_queue_and_reconnects [of "OtherCode ''1006''" closingExample] h
    by (simp add: Let_def)
qed

subsection \<open>Reading the trace\<close>

text \<open>
  The effects of the counters (their log lines and their writes to the state store)
  are interleaved with those of the other components. \<open>infoEffect\<close> recognises them
  and \<open>otherEffects\<close> is the trace without them.
\<close>

definition infoEffect :: "Effect \<Rightarrow> bool" where
  "infoEffect e =
     (case e of
        Log l m \<Rightarrow>
          (case m of
             MsgNoInfoEntry i \<Rightarrow> True
           | MsgValueChanged i v \<Rightarrow> True
           | MsgStartingTimer i \<Rightarrow> True
           | MsgTimeoutFor i \<Rightarrow> True
           | _ \<Rightarrow> False)
      | SetState i v \<Rightarrow> True
      | SetStateDetail i d \<Rightarrow> True
      | _ \<Rightarrow> False)"

definition otherEffects :: "Effect list \<Rightarrow> Effect list" where
  "otherEffects es = filter (\<lambda>e. \<not> infoEffect e) es"

text \<open>The calls of listeners, and the two reports of a write made while one is pending.\<close>

definition isListenerCall :: "Effect \<Rightarrow> bool" where
  "isListenerCall e = (case e of ListenerCall r old new \<Rightarrow> True | _ \<Rightarrow> False)"

definition isPendingReport :: "Effect \<Rightarrow> bool" where
  "isPendingReport e =
     (case e of
        Log l m \<Rightarrow> (case m of MsgDelaying i v \<Rightarrow> True | MsgDiscarding i v \<Rightarrow> True | _ \<Rightarrow> False)
      | _ \<Rightarrow> False)"

lemma otherEffects_append [simp]: "otherEffects (xs @ ys) = otherEffects xs @ otherEffects ys"
  by (simp add: otherEffects_def)

lemma otherEffects_Nil [simp]: "otherEffects [] = []"
  by (simp add: otherEffects_def)

lemma otherEffects_Cons [simp]:
  "otherEffects (e # es) = (if infoEffect e then otherEffects es else e # otherEffects es)"
  by (simp add: otherEffects_def)

lemma filter_otherEffects:
  assumes "\<And>e. P e \<Longrightarrow> \<not> infoEffect e"
  shows "filter P (otherEffects es) = filter P es"
  using assms by (induction es) auto

lemma isListenerCall_other: "isListenerCall e \<Longrightarrow> \<not> infoEffect e"
  by (cases e) (simp_all add: isListenerCall_def infoEffect_def)

lemma isPendingReport_other: "isPendingReport e \<Longrightarrow> \<not> infoEffect e"
  by (cases e) (auto simp add: isPendingReport_def infoEffect_def split: Message.splits)

lemma setInfoStateIfChanged_other [simp]:
  "otherEffects (trace (setInfoStateIfChanged ident r sd s)) = otherEffects (trace s)"
  "listenEntries (setInfoStateIfChanged ident r sd s) = listenEntries s"
  "currentStateValues (setInfoStateIfChanged ident r sd s) = currentStateValues s"
  by (simp_all add: setInfoStateIfChanged_def Let_def case_prod_beta infoEffect_def
        split: option.splits)

lemma incInfoState_other [simp]:
  "otherEffects (trace (incInfoState ident d v s)) = otherEffects (trace s)"
  "listenEntries (incInfoState ident d v s) = listenEntries s"
  "currentStateValues (incInfoState ident d v s) = currentStateValues s"
  by (simp_all add: incInfoState_def getInfoEntry_def Let_def infoEffect_def
        split: option.splits)

text \<open>
  A dispatch: a call of \<^verbatim>\<open>onStateChange\<close> that passes the filters at its head (an
  identifier that is not empty and does not contain \<^verbatim>\<open>.info.\<close>, a state that is not
  acknowledged).
\<close>

definition dispatchable :: "string \<Rightarrow> State \<Rightarrow> bool" where
  "dispatchable ident st = (ident \<noteq> [] \<and> \<not> ack st \<and> \<not> str_includes ident ''.info.'')"

lemma onStateChange_pending:
  assumes "dispatchable ident st" and "map_of (stateChangeListeners s) ident = Some r"
    and "lxConnected s" and "ackTimer (listenEntries s r) = Some h"
  shows "core (onStateChange pI ident (Some st) s) = core s"
    and "listenEntries (onStateChange pI ident (Some st) s)
           = (listenEntries s)(r := (listenEntries s r)\<lparr>queuedVal := val st\<rparr>)"
    and "currentStateValues (onStateChange pI ident (Some st) s) = currentStateValues s"
    and "otherEffects (trace (onStateChange pI ident (Some st) s))
           = otherEffects (trace s)
             @ [Log Debug (MsgStateChange ident st),
                Log Warn (if queuedVal (listenEntries s r) \<noteq> VNull
                          then MsgDiscarding ident (queuedVal (listenEntries s r))
                          else MsgDelaying ident (val st))]"
  using assms
  by (simp_all add: onStateChange_def dispatchable_def Let_def infoEffect_def)

subsection \<open>Writes made while an acknowledgement is pending\<close>

text \<open>A locally requested write of a value: a state that is not acknowledged.\<close>

definition requested :: "StateValue \<Rightarrow> State" where
  "requested v = \<lparr>val = v, ack = False\<rparr>"

fun dispatchAll :: "(StateValue \<Rightarrow> StateValue) \<Rightarrow> string \<Rightarrow> StateValue list \<Rightarrow> Loxone \<Rightarrow> Loxone" where
  "dispatchAll pI ident [] s = s"
| "dispatchAll pI ident (v # vs) s = dispatchAll pI ident vs (onStateChange pI ident (Some (requested v)) s)"

text \<open>
  The reports of a sequence of writes made while an acknowledgement is pending and the
  slot holds \<open>q\<close>: the test of the source is \<^verbatim>\<open>queuedVal !== null\<close>.
\<close>

fun pendingReports :: "string \<Rightarrow> StateValue \<Rightarrow> StateValue list \<Rightarrow> Effect list" where
  "pendingReports ident q [] = []"
| "pendingReports ident q (v # vs) =
     Log Warn (if q \<noteq> VNull then MsgDiscarding ident q else MsgDelaying ident v)
       # pendingReports ident v vs"

lemma dispatchAll_pending:
  assumes "ident \<noteq> []" and "\<not> str_includes ident ''.info.''"
    and "map_of (stateChangeListeners s) ident = Some r"
    and "lxConnected s" and "ackTimer (listenEntries s r) = Some h"
  shows "core (dispatchAll pI ident vs s) = core s
       \<and> listenEntries (dispatchAll pI ident vs s)
           = (listenEntries s)(r := (listenEntries s r)\<lparr>queuedVal := last (queuedVal (listenEntries s r) # vs)\<rparr>)
       \<and> currentStateValues (dispatchAll pI ident vs s) = currentStateValues s
       \<and> filter isListenerCall (trace (dispatchAll pI ident vs s)) = filter isListenerCall (trace s)
       \<and> filter isPendingReport (trace (dispatchAll pI ident vs s))
           = filter isPendingReport (trace s) @ pendingReports ident (queuedVal (listenEntries s r)) vs"
  using assms
proof (induction vs arbitrary: s)
  case Nil
  then show ?case by simp
next
  case (Cons v vs)
  let ?s1 = "onStateChange pI ident (Some (requested v)) s"
  have d: "dispatchable ident (requested v)"
    using Cons.prems by (simp add: dispatchable_def requested_def)
  note step = onStateChange_pending [OF d Cons.prems(3,4,5), of pI]
  have c1: "core ?s1 = core s" by (rule step(1))
  have l1: "listenEntries ?s1 = (listenEntries s)(r := (listenEntries s r)\<lparr>queuedVal := v\<rparr>)"
    using step(2) by (simp add: requested_def)
  have t1: "otherEffects (trace ?s1)
              = otherEffects (trace s)
                @ [Log Debug (MsgStateChange ident (requested v)),
                   Log Warn (if queuedVal (listenEntries s r) \<noteq> VNull
                             then MsgDiscarding ident (queuedVal (listenEntries s r))
                             else MsgDelaying ident v)]"
    using step(4) by (simp add: requested_def)
  have f1: "filter isListenerCall (trace ?s1) = filter isListenerCall (trace s)"
  proof -
    have "filter isListenerCall (otherEffects (trace ?s1)) = filter isListenerCall (otherEffects (trace s))"
      by (simp add: t1 isListenerCall_def)
    then show ?thesis by (simp add: filter_otherEffects isListenerCall_other)
  qed
  have f2: "filter isPendingReport (trace ?s1)
              = filter isPendingReport (trace s)
                @ [Log Warn (if queuedVal (listenEntries s r) \<noteq> VNull
                             then MsgDiscarding ident (queuedVal (listenEntries s r))
                             else MsgDelaying ident v)]"
  proof -
    have "filter isPendingReport (otherEffects (trace ?s1))
            = filter isPendingReport (otherEffects (trace s))
              @ [Log Warn (if queuedVal (listenEntries s r) \<noteq> VNull
                           then MsgDiscarding ident (queuedVal (listenEntries s r))
                           else MsgDelaying ident v)]"
      by (simp add: t1 isPendingReport_def)
    then show ?thesis by (simp add: filter_otherEffects isPendingReport_other)
  qed
  have p: "map_of (stateChangeListeners ?s1) ident = Some r" "lxConnected ?s1"
    "ackTimer (listenEntries ?s1 r) = Some h"
    using Cons.prems core_fields(3,12) [OF c1] by (simp_all add: l1)
  from Cons.IH [OF Cons.prems(1,2) p]
  show ?case
    using c1 step(3) by (simp add: l1 f1 f2 fun_eq_iff)
qed


subsection \<open>Example states\<close>

text \<open>
  The adapter after \<^verbatim>\<open>onReady\<close> on a fresh installation, where every step of the
  connection attempt succeeds and the structure file registers the listeners \<open>bs\<close>;
  \<^verbatim>\<open>parseInt\<close> is taken to be the identity.
\<close>

definition connectedWith :: "Binding list \<Rightarrow> Loxone" where
  "connectedWith bs =
     onReady (\<lambda>v. v) (\<lambda>i. None) []
       \<lparr>openOk = True, structureFile = Some \<lparr>bindings = bs, loadThrows = False\<rparr>,
        enableOk = True, arrivals = []\<rparr>
       (newAdapter ''loxone.0'')"

lemmas run_defs =
  onReady_def initInfoStates_def initInfoState_def setConnectionState_def connect_def
  connectOpen_def connectLoad_def connectEnable_def connectFinish_def socketCall_def
  loadStructureFile_def loadStructureFileAsync_def addStateChangeListener_def
  addStateEventHandler_def removeStateEventHandler_def
  handleEventQueue.simps drain.simps handleAnyEvent.simps handleEvent_def
  newAdapter_def log_def emit_def Let_def

lemma connectedWith_listener:
  "lxConnected (connectedWith [BindStateChangeListener ''A'' os])"
  "stateChangeListeners (connectedWith [BindStateChangeListener ''A'' os]) = [(''loxone.0.A'', 0)]"
  "listenEntries (connectedWith [BindStateChangeListener ''A'' os]) 0
     = \<lparr>opts = os, queuedVal = VNull, ackTimer = None\<rparr>"
  "currentStateValues (connectedWith [BindStateChangeListener ''A'' os]) = Map.empty"
  "timers (connectedWith [BindStateChangeListener ''A'' os]) = []"
  "nextTimeout (connectedWith [BindStateChangeListener ''A'' os]) = 0"
  "now (connectedWith [BindStateChangeListener ''A'' os]) = 0"
  "filter isListenerCall (trace (connectedWith [BindStateChangeListener ''A'' os])) = []"
  "filter isPendingReport (trace (connectedWith [BindStateChangeListener ''A'' os])) = []"
  by (simp_all add: connectedWith_def run_defs isListenerCall_def isPendingReport_def)


text \<open>
  A first write of 5 to the item \<open>A\<close>, registered without options: its listener is
  called and the acknowledgement is pending.
\<close>

definition pendingExample :: Loxone where
  "pendingExample =
     onStateChange (\<lambda>v. v) ''loxone.0.A'' (Some (requested (VNum 5)))
       (connectedWith [BindStateChangeListener ''A'' None])"

lemma pendingExample_facts:
  "lxConnected pendingExample"
  "map_of (stateChangeListeners pendingExample) ''loxone.0.A'' = Some 0"
  "ackTimer (listenEntries pendingExample 0) = Some 0"
  "queuedVal (listenEntries pendingExample 0) = VNull"
  "filter isListenerCall (trace pendingExample) = [ListenerCall 0 None (VNum 5)]"
  "filter isPendingReport (trace pendingExample) = []"
  "timers pendingExample = [\<lparr>handle = 0, due = 500, cb = AckTimeoutCb ''loxone.0.A'' 0\<rparr>]"
proof -
  let ?c = "connectedWith [BindStateChangeListener ''A'' None]"
  have c: "core pendingExample = core ?c"
    by (simp add: pendingExample_def onStateChange_def requested_def connectedWith_listener Let_def)
  show "lxConnected pendingExample"
    using core_fields(12) [OF c] by (simp add: connectedWith_listener)
  show "map_of (stateChangeListeners pendingExample) ''loxone.0.A'' = Some 0"
    using core_fields(3) [OF c] by (simp add: connectedWith_listener)
  have e: "pendingExample = handleStateChange (\<lambda>v. v) ''loxone.0.A'' 0 (VNum 5)
             (log Debug (MsgStateChange ''loxone.0.A'' (requested (VNum 5))) ?c)"
    by (simp add: pendingExample_def onStateChange_def requested_def connectedWith_listener Let_def)
  show "ackTimer (listenEntries pendingExample 0) = Some 0"
    "queuedVal (listenEntries pendingExample 0) = VNull"
    "filter isListenerCall (trace pendingExample) = [ListenerCall 0 None (VNum 5)]"
    "filter isPendingReport (trace pendingExample) = []"
    "timers pendingExample = [\<lparr>handle = 0, due = 500, cb = AckTimeoutCb ''loxone.0.A'' 0\<rparr>]"
    by (simp_all add: e handleStateChange.simps connectedWith_listener coerce_def optNotIfEqual_def
          optSelfAck_def optAckTimeoutMs_def ackTimeoutMs_default_def Let_def case_prod_beta
          isListenerCall_def isPendingReport_def)
qed

text \<open>
  Claim C1 fails as it is stated: the slot is empty when it holds \<^verbatim>\<open>null\<close>, and
  \<^verbatim>\<open>null\<close> is a value that can be written. After a write of \<^verbatim>\<open>null\<close> while the
  acknowledgement is pending, the next write is reported as delayed again, not as one
  that discards the value queued before it.
\<close>

theorem later_write_after_null_is_reported_delayed:
  "filter isPendingReport (trace (dispatchAll (\<lambda>v. v) ''loxone.0.A'' [VNull, VNum 7] pendingExample))
     = [Log Warn (MsgDelaying ''loxone.0.A'' VNull), Log Warn (MsgDelaying ''loxone.0.A'' (VNum 7))]"
proof -
  have "''loxone.0.A'' \<noteq> []" "\<not> str_includes ''loxone.0.A'' ''.info.''" by simp_all
  from dispatchAll_pending [OF this pendingExample_facts(2,1,3), of "\<lambda>v. v" "[VNull, VNum 7]"]
  show ?thesis by (simp add: pendingExample_facts)
qed

lemma pendingReports_nonnull:
  "\<forall>v \<in> set vs. v \<noteq> VNull \<Longrightarrow> vs \<noteq> [] \<Longrightarrow>
   pendingReports ident q vs
     = Log Warn (if q \<noteq> VNull then MsgDiscarding ident q else MsgDelaying ident (hd vs))
       # map (\<lambda>v. Log Warn (MsgDiscarding ident v)) (butlast vs)"
  by (induction vs arbitrary: q) auto

text \<open>
  Claim C1, amended. Take an item that is registered under an identifier which passes
  the filters of \<^verbatim>\<open>onStateChange\<close>, a connected adapter, a running acknowledgement
  timer and an empty slot. For every sequence of writes of values other than \<^verbatim>\<open>null\<close>,
  with no confirmation and no timeout between them: no listener is called; the slot
  holds the last value and the timer is still the same; the first write is reported
  as delayed and each later one as discarding the value queued before it, in this
  order and with no other such report; and the only value that a later confirmation
  or timeout hands to \<^verbatim>\<open>handleStateChange\<close> is the last one.
\<close>

theorem pending_writes_keep_last_value:
  assumes "vs \<noteq> []" and "\<forall>v \<in> set vs. v \<noteq> VNull"
    and "ident \<noteq> []" and "\<not> str_includes ident ''.info.''"
    and "map_of (stateChangeListeners s) ident = Some r"
    and "lxConnected s" and "ackTimer (listenEntries s r) = Some h"
    and "queuedVal (listenEntries s r) = VNull"
  shows "filter isListenerCall (trace (dispatchAll pI ident vs s)) = filter isListenerCall (trace s)
       \<and> queuedVal (listenEntries (dispatchAll pI ident vs s) r) = last vs
       \<and> ackTimer (listenEntries (dispatchAll pI ident vs s) r) = Some h
       \<and> filter isPendingReport (trace (dispatchAll pI ident vs s))
           = filter isPendingReport (trace s)
             @ Log Warn (MsgDelaying ident (hd vs))
               # map (\<lambda>v. Log Warn (MsgDiscarding ident v)) (butlast vs)
       \<and> handleDelayedStateChange pI ident r (dispatchAll pI ident vs s)
           = updListenEntry r (\<lambda>e. e\<lparr>queuedVal := VNull\<rparr>)
               (handleStateChange pI ident r (last vs)
                  (log Debug (MsgHandlingDelayed ident (last vs)) (dispatchAll pI ident vs s)))"
proof -
  note d = dispatchAll_pending [OF assms(3,4,5,6,7), of pI vs]
  have q: "queuedVal (listenEntries (dispatchAll pI ident vs s) r) = last vs"
    using d assms(1) by simp
  have nn: "last vs \<noteq> VNull" using assms(1,2) by simp
  have del: "handleDelayedStateChange pI ident r (dispatchAll pI ident vs s)
           = updListenEntry r (\<lambda>e. e\<lparr>queuedVal := VNull\<rparr>)
               (handleStateChange pI ident r (last vs)
                  (log Debug (MsgHandlingDelayed ident (last vs)) (dispatchAll pI ident vs s)))"
    by (subst handleDelayedStateChange.simps) (simp add: q nn Let_def)
  show ?thesis
    using d q del assms(7,8) pendingReports_nonnull [OF assms(2,1), of ident VNull]
    by simp
qed

theorem pending_writes_keep_last_value_witness:
  "filter isListenerCall (trace (dispatchAll (\<lambda>v. v) ''loxone.0.A'' [VNum 7, VNum 8, VNum 9] pendingExample))
     = [ListenerCall 0 None (VNum 5)]
   \<and> queuedVal (listenEntries (dispatchAll (\<lambda>v. v) ''loxone.0.A'' [VNum 7, VNum 8, VNum 9] pendingExample) 0)
     = VNum 9
   \<and> filter isPendingReport
       (trace (dispatchAll (\<lambda>v. v) ''loxone.0.A'' [VNum 7, VNum 8, VNum 9] pendingExample))
     = [Log Warn (MsgDelaying ''loxone.0.A'' (VNum 7)),
        Log Warn (MsgDiscarding ''loxone.0.A'' (VNum 7)),
        Log Warn (MsgDiscarding ''loxone.0.A'' (VNum 8))]"
proof -
  have h: "[VNum 7, VNum 8, VNum 9] \<noteq> []" "\<forall>v \<in> set [VNum 7, VNum 8, VNum 9]. v \<noteq> VNull"
    "''loxone.0.A'' \<noteq> []" "\<not> str_includes ''loxone.0.A'' ''.info.''"
    by simp_all
  from pending_writes_keep_last_value [OF h pendingExample_facts(2,1,3,4), of "\<lambda>v. v"]
  show ?thesis by (simp add: pendingExample_facts)
qed

subsection \<open>The empty slot\<close>

text \<open>The item \<open>A\<close> with the value 7 queued behind the pending acknowledgement.\<close>

definition queuedExample :: Loxone where
  "queuedExample = onStateChange (\<lambda>v. v) ''loxone.0.A'' (Some (requested (VNum 7))) pendingExample"

lemma queuedExample_facts:
  "lxConnected queuedExample"
  "map_of (stateChangeListeners queuedExample) ''loxone.0.A'' = Some 0"
  "ackTimer (listenEntries queuedExample 0) = Some 0"
  "queuedVal (listenEntries queuedExample 0) = VNum 7"
  "filter isPendingReport (trace queuedExample) = [Log Warn (MsgDelaying ''loxone.0.A'' (VNum 7))]"
proof -
  have "''loxone.0.A'' \<noteq> []" "\<not> str_includes ''loxone.0.A'' ''.info.''" by simp_all
  from dispatchAll_pending [OF this pendingExample_facts(2,1,3), of "\<lambda>v. v" "[VNum 7]"]
  have d: "core queuedExample = core pendingExample"
    "listenEntries queuedExample
       = (listenEntries pendingExample)(0 := (listenEntries pendingExample 0)\<lparr>queuedVal := VNum 7\<rparr>)"
    "filter isPendingReport (trace queuedExample) = [Log Warn (MsgDelaying ''loxone.0.A'' (VNum 7))]"
    by (simp_all add: queuedExample_def pendingExample_facts)
  show "lxConnected queuedExample"
    using core_fields(12) [OF d(1)] by (simp add: pendingExample_facts)
  show "map_of (stateChangeListeners queuedExample) ''loxone.0.A'' = Some 0"
    using core_fields(3) [OF d(1)] by (simp add: pendingExample_facts)
  show "ackTimer (listenEntries queuedExample 0) = Some 0"
    "queuedVal (listenEntries queuedExample 0) = VNum 7"
    by (simp_all add: d(2) pendingExample_facts)
  show "filter isPendingReport (trace queuedExample) = [Log Warn (MsgDelaying ''loxone.0.A'' (VNum 7))]"
    by (rule d(3))
qed

text \<open>
  Claim C10 fails as it is stated in one case: a write of \<^verbatim>\<open>null\<close> that replaces a
  queued value other than \<^verbatim>\<open>null\<close> is reported as discarding that value, not as
  delayed.
\<close>

theorem null_write_over_queued_value_is_reported_discarding:
  "filter isPendingReport (trace (onStateChange (\<lambda>v. v) ''loxone.0.A'' (Some (requested VNull)) queuedExample))
     = [Log Warn (MsgDelaying ''loxone.0.A'' (VNum 7)),
        Log Warn (MsgDiscarding ''loxone.0.A'' (VNum 7))]"
proof -
  have "''loxone.0.A'' \<noteq> []" "\<not> str_includes ''loxone.0.A'' ''.info.''" by simp_all
  from dispatchAll_pending [OF this queuedExample_facts(2,1,3), of "\<lambda>v. v" "[VNull]"]
  show ?thesis by (simp add: queuedExample_facts)
qed

text \<open>
  Claim C10, amended. The slot for the queued value uses \<^verbatim>\<open>null\<close> as its empty mark.
  A write of \<^verbatim>\<open>null\<close> dispatched while an acknowledgement is pending calls no
  listener and leaves \<^verbatim>\<open>null\<close> in the slot; \<^verbatim>\<open>handleDelayedStateChange\<close> then finds the
  slot empty and does nothing, so the write is never delivered. Any write, of \<^verbatim>\<open>null\<close>
  or of another value, that comes while the slot holds \<^verbatim>\<open>null\<close> (because it is empty
  or because a \<^verbatim>\<open>null\<close> was queued) is reported as delayed and not as discarding; a
  write that comes while the slot holds another value is reported as discarding that
  value, also when the written value is \<^verbatim>\<open>null\<close>.
\<close>

theorem null_is_the_empty_slot:
  assumes "ident \<noteq> []" and "\<not> str_includes ident ''.info.''"
    and "map_of (stateChangeListeners s) ident = Some r"
    and "lxConnected s" and "ackTimer (listenEntries s r) = Some h"
  shows "queuedVal (listenEntries (onStateChange pI ident (Some (requested VNull)) s) r) = VNull
       \<and> filter isListenerCall (trace (onStateChange pI ident (Some (requested VNull)) s))
           = filter isListenerCall (trace s)
       \<and> handleDelayedStateChange pI ident r (onStateChange pI ident (Some (requested VNull)) s)
           = onStateChange pI ident (Some (requested VNull)) s
       \<and> filter isPendingReport (trace (onStateChange pI ident (Some (requested v)) s))
           = filter isPendingReport (trace s)
             @ [Log Warn (if queuedVal (listenEntries s r) = VNull
                          then MsgDelaying ident v
                          else MsgDiscarding ident (queuedVal (listenEntries s r)))]"
proof -
  note d = dispatchAll_pending [OF assms, of pI]
  have q: "queuedVal (listenEntries (onStateChange pI ident (Some (requested VNull)) s) r) = VNull"
    using d [of "[VNull]"] by simp
  have "handleDelayedStateChange pI ident r (onStateChange pI ident (Some (requested VNull)) s)
           = onStateChange pI ident (Some (requested VNull)) s"
    by (subst handleDelayedStateChange.simps) (simp add: q)
  then show ?thesis
    using d [of "[VNull]"] d [of "[v]"] by simp
qed

text \<open>The item \<open>A\<close> with \<^verbatim>\<open>null\<close> queued behind the pending acknowledgement.\<close>

definition nullQueuedExample :: Loxone where
  "nullQueuedExample = onStateChange (\<lambda>v. v) ''loxone.0.A'' (Some (requested VNull)) pendingExample"

lemma nullQueuedExample_facts:
  "lxConnected nullQueuedExample"
  "map_of (stateChangeListeners nullQueuedExample) ''loxone.0.A'' = Some 0"
  "ackTimer (listenEntries nullQueuedExample 0) = Some 0"
  "queuedVal (listenEntries nullQueuedExample 0) = VNull"
  "filter isListenerCall (trace nullQueuedExample) = [ListenerCall 0 None (VNum 5)]"
  "filter isPendingReport (trace nullQueuedExample) = [Log Warn (MsgDelaying ''loxone.0.A'' VNull)]"
proof -
  have "''loxone.0.A'' \<noteq> []" "\<not> str_includes ''loxone.0.A'' ''.info.''" by simp_all
  from dispatchAll_pending [OF this pendingExample_facts(2,1,3), of "\<lambda>v. v" "[VNull]"]
  have d: "core nullQueuedExample = core pendingExample"
    "listenEntries nullQueuedExample
       = (listenEntries pendingExample)(0 := (listenEntries pendingExample 0)\<lparr>queuedVal := VNull\<rparr>)"
    "filter isListenerCall (trace nullQueuedExample) = [ListenerCall 0 None (VNum 5)]"
    "filter isPendingReport (trace nullQueuedExample) = [Log Warn (MsgDelaying ''loxone.0.A'' VNull)]"
    by (simp_all add: nullQueuedExample_def pendingExample_facts)
  show "lxConnected nullQueuedExample"
    using core_fields(12) [OF d(1)] by (simp add: pendingExample_facts)
  show "map_of (stateChangeListeners nullQueuedExample) ''loxone.0.A'' = Some 0"
    using core_fields(3) [OF d(1)] by (simp add: pendingExample_facts)
  show "ackTimer (listenEntries nullQueuedExample 0) = Some 0"
    "queuedVal (listenEntries nullQueuedExample 0) = VNull"
    by (simp_all add: d(2) pendingExample_facts)
  show "filter isListenerCall (trace nullQueuedExample) = [ListenerCall 0 None (VNum 5)]"
    "filter isPendingReport (trace nullQueuedExample) = [Log Warn (MsgDelaying ''loxone.0.A'' VNull)]"
    by (rule d(3), rule d(4))
qed

theorem null_is_the_empty_slot_witness:
  "queuedVal (listenEntries (onStateChange (\<lambda>v. v) ''loxone.0.A'' (Some (requested VNull)) nullQueuedExample) 0)
     = VNull
   \<and> filter isListenerCall (trace (onStateChange (\<lambda>v. v) ''loxone.0.A'' (Some (requested VNull)) nullQueuedExample))
     = [ListenerCall 0 None (VNum 5)]
   \<and> handleDelayedStateChange (\<lambda>v. v) ''loxone.0.A'' 0
        (onStateChange (\<lambda>v. v) ''loxone.0.A'' (Some (requested VNull)) nullQueuedExample)
     = onStateChange (\<lambda>v. v) ''loxone.0.A'' (Some (requested VNull)) nullQueuedExample
   \<and> filter isPendingReport (trace (onStateChange (\<lambda>v. v) ''loxone.0.A'' (Some (requested VNull)) nullQueuedExample))
     = [Log Warn (MsgDelaying ''loxone.0.A'' VNull), Log Warn (MsgDelaying ''loxone.0.A'' VNull)]"
proof -
  have h: "''loxone.0.A'' \<noteq> []" "\<not> str_includes ''loxone.0.A'' ''.info.''" by simp_all
  from null_is_the_empty_slot [OF h nullQueuedExample_facts(2,1,3), of "\<lambda>v. v" VNull]
  show ?thesis by (simp add: nullQueuedExample_facts)
qed

subsection \<open>Writes to identifiers that are not registered\<close>

text \<open>The reports of an unsupported write.\<close>

definition isUnsupportedReport :: "Effect \<Rightarrow> bool" where
  "isUnsupportedReport e =
     (case e of Log l m \<Rightarrow> (case m of MsgUnsupportedStateChange i \<Rightarrow> True | _ \<Rightarrow> False) | _ \<Rightarrow> False)"

text \<open>
  Claim C9 fails as it is stated: the error is logged before the set of reported
  identifiers is consulted, so a second write to the same unregistered identifier is
  logged a second time.
\<close>

theorem unsupported_write_is_logged_on_every_dispatch:
  "filter isUnsupportedReport
     (trace (dispatchAll (\<lambda>v. v) ''loxone.0.B'' [VNum 1, VNum 1] (connectedWith [BindStateChangeListener ''A'' None])))
     = [Log Error (MsgUnsupportedStateChange ''loxone.0.B''),
        Log Error (MsgUnsupportedStateChange ''loxone.0.B'')]"
  by (simp add: onStateChange_def requested_def connectedWith_listener Let_def log_def emit_def
        isUnsupportedReport_def connectedWith_def [symmetric])
     (simp add: connectedWith_def run_defs isUnsupportedReport_def)

lemma onStateChange_unregistered:
  assumes "dispatchable ident st" and "map_of (stateChangeListeners s) ident = None"
  shows "onStateChange pI ident (Some st) s
           = s\<lparr>trace := trace s @ [Log Debug (MsgStateChange ident st),
                                    Log Error (MsgUnsupportedStateChange ident)],
               reportedUnsupportedStateChanges := insert ident (reportedUnsupportedStateChanges s)\<rparr>"
  using assms
  by (simp add: onStateChange_def dispatchable_def Let_def log_def emit_def insert_absorb)

lemma dispatchAll_unregistered:
  assumes "ident \<noteq> []" and "\<not> str_includes ident ''.info.''"
    and "map_of (stateChangeListeners s) ident = None"
  shows "dispatchAll pI ident vs s
           = (if vs = [] then s
              else s\<lparr>trace := trace s @ concat (map (\<lambda>v. [Log Debug (MsgStateChange ident (requested v)),
                                                          Log Error (MsgUnsupportedStateChange ident)]) vs),
                     reportedUnsupportedStateChanges := insert ident (reportedUnsupportedStateChanges s)\<rparr>)"
  using assms
proof (induction vs arbitrary: s)
  case Nil
  then show ?case by simp
next
  case (Cons v vs)
  have d: "dispatchable ident (requested v)"
    using Cons.prems by (simp add: dispatchable_def requested_def)
  note step = onStateChange_unregistered [OF d Cons.prems(3), of pI]
  have "map_of (stateChangeListeners (onStateChange pI ident (Some (requested v)) s)) ident = None"
    using Cons.prems(3) by (simp add: step)
  from Cons.IH [OF Cons.prems(1,2) this]
  show ?case by (simp add: step)
qed

text \<open>
  Claim C9, amended. A write to an identifier that is not registered (and that passes
  the filters of \<^verbatim>\<open>onStateChange\<close>) calls no listener and logs one error report for
  the identifier at every such write: \<open>n\<close> writes give \<open>n\<close> reports. The identifier is
  put into the set of reported identifiers, where it is kept once however often the
  write is repeated; nothing but the trace and that set changes.
\<close>

theorem unsupported_write_reports:
  assumes "ident \<noteq> []" and "\<not> str_includes ident ''.info.''"
    and "map_of (stateChangeListeners s) ident = None" and "vs \<noteq> []"
  shows "filter isListenerCall (trace (dispatchAll pI ident vs s)) = filter isListenerCall (trace s)
       \<and> filter isUnsupportedReport (trace (dispatchAll pI ident vs s))
           = filter isUnsupportedReport (trace s)
             @ replicate (length vs) (Log Error (MsgUnsupportedStateChange ident))
       \<and> reportedUnsupportedStateChanges (dispatchAll pI ident vs s)
           = insert ident (reportedUnsupportedStateChanges s)
       \<and> dispatchAll pI ident vs s
           = s\<lparr>trace := trace (dispatchAll pI ident vs s),
               reportedUnsupportedStateChanges := insert ident (reportedUnsupportedStateChanges s)\<rparr>"
proof -
  have f1: "filter isListenerCall
              (concat (map (\<lambda>v. [Log Debug (MsgStateChange ident (requested v)),
                                   Log Error (MsgUnsupportedStateChange ident)]) vs)) = []"
    by (induction vs) (simp_all add: isListenerCall_def)
  have f2: "filter isUnsupportedReport
              (concat (map (\<lambda>v. [Log Debug (MsgStateChange ident (requested v)),
                                   Log Error (MsgUnsupportedStateChange ident)]) vs))
            = replicate (length vs) (Log Error (MsgUnsupportedStateChange ident))"
    by (induction vs) (simp_all add: isUnsupportedReport_def)
  show ?thesis
    using assms(4) by (simp add: dispatchAll_unregistered [OF assms(1,2,3)] f1 f2)
qed

theorem unsupported_write_reports_witness:
  "filter isListenerCall
     (trace (dispatchAll (\<lambda>v. v) ''loxone.0.B'' [VNum 1, VNum 2, VNum 3] (connectedWith [BindStateChangeListener ''A'' None])))
     = []
   \<and> filter isUnsupportedReport
     (trace (dispatchAll (\<lambda>v. v) ''loxone.0.B'' [VNum 1, VNum 2, VNum 3] (connectedWith [BindStateChangeListener ''A'' None])))
     = [Log Error (MsgUnsupportedStateChange ''loxone.0.B''),
        Log Error (MsgUnsupportedStateChange ''loxone.0.B''),
        Log Error (MsgUnsupportedStateChange ''loxone.0.B'')]
   \<and> reportedUnsupportedStateChanges
     (dispatchAll (\<lambda>v. v) ''loxone.0.B'' [VNum 1, VNum 2, VNum 3] (connectedWith [BindStateChangeListener ''A'' None]))
     = {''loxone.0.B''}"
proof -
  have h: "''loxone.0.B'' \<noteq> []" "\<not> str_includes ''loxone.0.B'' ''.info.''"
    "map_of (stateChangeListeners (connectedWith [BindStateChangeListener ''A'' None])) ''loxone.0.B'' = None"
    "[VNum 1, VNum 2, VNum 3] \<noteq> []"
    by (simp_all add: connectedWith_listener)
  have r: "reportedUnsupportedStateChanges (connectedWith [BindStateChangeListener ''A'' None]) = {}"
    "filter isUnsupportedReport (trace (connectedWith [BindStateChangeListener ''A'' None])) = []"
    by (simp_all add: connectedWith_def run_defs isUnsupportedReport_def)
  from unsupported_write_reports [OF h, of "\<lambda>v. v"]
  show ?thesis by (simp add: connectedWith_listener r)
qed

subsection \<open>Confirmations\<close>

text \<open>
  \<^verbatim>\<open>handleStateChange\<close> where it calls the listener and waits for the acknowledgement:
  the item does not acknowledge itself, and the value is not skipped as unchanged.
\<close>

definition callsListener ::
  "(StateValue \<Rightarrow> StateValue) \<Rightarrow> string \<Rightarrow> nat \<Rightarrow> StateValue \<Rightarrow> Loxone \<Rightarrow> bool" where
  "callsListener pI ident r v s =
     (\<not> optSelfAck (opts (listenEntries s r)) \<and>
      \<not> (optNotIfEqual (opts (listenEntries s r)) \<and>
         strictEq (currentStateValues s ident) (coerce pI (opts (listenEntries s r)) v)))"

lemma handleStateChange_listener:
  assumes "callsListener pI ident r v s"
  shows "handleStateChange pI ident r v s
           = s\<lparr>timers := timers s @ [\<lparr>handle = nextTimeout s,
                                        due = now s + optAckTimeoutMs (opts (listenEntries s r)),
                                        cb = AckTimeoutCb ident r\<rparr>],
               nextTimeout := Suc (nextTimeout s),
               listenEntries := (listenEntries s)(r := (listenEntries s r)\<lparr>ackTimer := Some (nextTimeout s)\<rparr>),
               trace := trace s @ [ListenerCall r (currentStateValues s ident)
                                     (coerce pI (opts (listenEntries s r)) v)]\<rparr>"
  using assms
  by (subst handleStateChange.simps)
     (auto simp add: callsListener_def Let_def setTimeout_def updListenEntry_def emit_def)

text \<open>
  Claim C3. \<^verbatim>\<open>checkStateForAck\<close>, which \<^verbatim>\<open>setStateAck\<close> calls for every confirmed value,
  does nothing but write a log line when the identifier has no listener or the
  listener has no running acknowledgement timer. When the timer runs, it first clears
  that timer (the timer with the stored handle leaves the pending timers, the handle
  of this entry is forgotten, no other entry changes) and then, in the state so
  reached, hands over to \<^verbatim>\<open>handleDelayedStateChange\<close>: with an empty slot nothing
  more happens; with a queued value, \<^verbatim>\<open>handleStateChange\<close> is called with it and
  the slot is emptied. Where \<^verbatim>\<open>handleStateChange\<close> calls the listener, the trace
  gains, in this order, the line for the cleared timer, the line for the delayed
  value and the call of the listener with the queued value; the slot is empty and a
  new acknowledgement timer runs afterwards.
\<close>

theorem confirmation_clears_timer_then_delivers_queued_value:
  "(map_of (stateChangeListeners s) key = None \<longrightarrow>
      checkStateForAck pI key s = log Silly (MsgNoListener key) s) \<and>
   (map_of (stateChangeListeners s) key = Some r \<and> ackTimer (listenEntries s r) = None \<longrightarrow>
      checkStateForAck pI key s = log Debug (MsgNoAckTimer key) s) \<and>
   (map_of (stateChangeListeners s) key = Some r \<and> ackTimer (listenEntries s r) = Some h \<longrightarrow>
      (let cleared = updListenEntry r (\<lambda>e. e\<lparr>ackTimer := None\<rparr>)
                       (clearTimeout h (log Debug (MsgClearingAckTimer key) s));
           q = queuedVal (listenEntries s r)
       in timers cleared = filter (\<lambda>t. handle t \<noteq> h) (timers s) \<and>
          listenEntries cleared = (listenEntries s)(r := (listenEntries s r)\<lparr>ackTimer := None\<rparr>) \<and>
          checkStateForAck pI key s = handleDelayedStateChange pI key r cleared \<and>
          (q = VNull \<longrightarrow> checkStateForAck pI key s = cleared) \<and>
          (q \<noteq> VNull \<longrightarrow>
             checkStateForAck pI key s
               = updListenEntry r (\<lambda>e. e\<lparr>queuedVal := VNull\<rparr>)
                   (handleStateChange pI key r q (log Debug (MsgHandlingDelayed key q) cleared))) \<and>
          (q \<noteq> VNull \<and> callsListener pI key r q s \<longrightarrow>
             trace (checkStateForAck pI key s)
               = trace s @ [Log Debug (MsgClearingAckTimer key),
                            Log Debug (MsgHandlingDelayed key q),
                            ListenerCall r (currentStateValues s key)
                              (coerce pI (opts (listenEntries s r)) q)] \<and>
             queuedVal (listenEntries (checkStateForAck pI key s) r) = VNull \<and>
             ackTimer (listenEntries (checkStateForAck pI key s) r) = Some (nextTimeout s) \<and>
             timers (checkStateForAck pI key s)
               = filter (\<lambda>t. handle t \<noteq> h) (timers s)
                 @ [\<lparr>handle = nextTimeout s,
                     due = now s + optAckTimeoutMs (opts (listenEntries s r)),
                     cb = AckTimeoutCb key r\<rparr>])))"
proof (intro conjI impI)
  assume "map_of (stateChangeListeners s) key = None"
  then show "checkStateForAck pI key s = log Silly (MsgNoListener key) s"
    by (subst checkStateForAck.simps) simp
next
  assume "map_of (stateChangeListeners s) key = Some r \<and> ackTimer (listenEntries s r) = None"
  then show "checkStateForAck pI key s = log Debug (MsgNoAckTimer key) s"
    by (subst checkStateForAck.simps) simp
next
  assume a: "map_of (stateChangeListeners s) key = Some r \<and> ackTimer (listenEntries s r) = Some h"
  define cleared where "cleared = updListenEntry r (\<lambda>e. e\<lparr>ackTimer := None\<rparr>)
                       (clearTimeout h (log Debug (MsgClearingAckTimer key) s))"
  define q where "q = queuedVal (listenEntries s r)"
  have c: "checkStateForAck pI key s = handleDelayedStateChange pI key r cleared"
    using a by (subst checkStateForAck.simps) (simp add: cleared_def Let_def)
  have qc: "queuedVal (listenEntries cleared r) = q"
    by (simp add: cleared_def q_def)
  have empty: "q = VNull \<Longrightarrow> checkStateForAck pI key s = cleared"
    unfolding c by (subst handleDelayedStateChange.simps) (simp add: qc)
  have full: "q \<noteq> VNull \<Longrightarrow> checkStateForAck pI key s
               = updListenEntry r (\<lambda>e. e\<lparr>queuedVal := VNull\<rparr>)
                   (handleStateChange pI key r q (log Debug (MsgHandlingDelayed key q) cleared))"
    unfolding c by (subst handleDelayedStateChange.simps) (simp add: qc Let_def)
  have plain: "trace (checkStateForAck pI key s)
               = trace s @ [Log Debug (MsgClearingAckTimer key),
                            Log Debug (MsgHandlingDelayed key q),
                            ListenerCall r (currentStateValues s key)
                              (coerce pI (opts (listenEntries s r)) q)] \<and>
             queuedVal (listenEntries (checkStateForAck pI key s) r) = VNull \<and>
             ackTimer (listenEntries (checkStateForAck pI key s) r) = Some (nextTimeout s) \<and>
             timers (checkStateForAck pI key s)
               = filter (\<lambda>t. handle t \<noteq> h) (timers s)
                 @ [\<lparr>handle = nextTimeout s,
                     due = now s + optAckTimeoutMs (opts (listenEntries s r)),
                     cb = AckTimeoutCb key r\<rparr>]"
    if "q \<noteq> VNull \<and> callsListener pI key r q s"
  proof -
    have "callsListener pI key r q (log Debug (MsgHandlingDelayed key q) cleared)"
      using that by (simp add: callsListener_def cleared_def)
    from handleStateChange_listener [OF this] that
    show ?thesis by (simp add: full cleared_def)
  qed
  show "let cleared = updListenEntry r (\<lambda>e. e\<lparr>ackTimer := None\<rparr>)
                       (clearTimeout h (log Debug (MsgClearingAckTimer key) s));
           q = queuedVal (listenEntries s r)
       in timers cleared = filter (\<lambda>t. handle t \<noteq> h) (timers s) \<and>
          listenEntries cleared = (listenEntries s)(r := (listenEntries s r)\<lparr>ackTimer := None\<rparr>) \<and>
          checkStateForAck pI key s = handleDelayedStateChange pI key r cleared \<and>
          (q = VNull \<longrightarrow> checkStateForAck pI key s = cleared) \<and>
          (q \<noteq> VNull \<longrightarrow>
             checkStateForAck pI key s
               = updListenEntry r (\<lambda>e. e\<lparr>queuedVal := VNull\<rparr>)
                   (handleStateChange pI key r q (log Debug (MsgHandlingDelayed key q) cleared))) \<and>
          (q \<noteq> VNull \<and> callsListener pI key r q s \<longrightarrow>
             trace (checkStateForAck pI key s)
               = trace s @ [Log Debug (MsgClearingAckTimer key),
                            Log Debug (MsgHandlingDelayed key q),
                            ListenerCall r (currentStateValues s key)
                              (coerce pI (opts (listenEntries s r)) q)] \<and>
             queuedVal (listenEntries (checkStateForAck pI key s) r) = VNull \<and>
             ackTimer (listenEntries (checkStateForAck pI key s) r) = Some (nextTimeout s) \<and>
             timers (checkStateForAck pI key s)
               = filter (\<lambda>t. handle t \<noteq> h) (timers s)
                 @ [\<lparr>handle = nextTimeout s,
                     due = now s + optAckTimeoutMs (opts (listenEntries s r)),
                     cb = AckTimeoutCb key r\<rparr>])"
    unfolding Let_def cleared_def [symmetric] q_def [symmetric]
    using c empty full plain by (simp add: cleared_def)
qed


lemmas ack_defs =
  onStateChange_def requested_def incInfoState_def getInfoEntry_def setInfoStateIfChanged_def
  updInfoEntry_def updListenEntry_def setTimeout_def clearTimeout_def infoTimeoutMs_def
  handleStateChange.simps handleDelayedStateChange.simps checkStateForAck.simps setStateAck.simps
  coerce_def optNotIfEqual_def optSelfAck_def optAckTimeoutMs_def ackTimeoutMs_default_def
  Number_def case_prod_beta

lemma queuedExample_more:
  "opts (listenEntries queuedExample 0) = None"
  "currentStateValues queuedExample = Map.empty"
  "filter isListenerCall (trace queuedExample) = [ListenerCall 0 None (VNum 5)]"
  "timers queuedExample
     = [\<lparr>handle = 0, due = 500, cb = AckTimeoutCb ''loxone.0.A'' 0\<rparr>,
        \<lparr>handle = 1, due = 30000, cb = InfoTimeoutCb ''info.stateChangesDelayed'' 3\<rparr>]"
  "nextTimeout queuedExample = 2"
  "now queuedExample = 0"
  by (simp_all add: queuedExample_def pendingExample_def connectedWith_def run_defs ack_defs
        isListenerCall_def)


theorem confirmation_clears_timer_then_delivers_queued_value_witness:
  "trace (checkStateForAck (\<lambda>v. v) ''loxone.0.A'' queuedExample)
     = trace queuedExample @ [Log Debug (MsgClearingAckTimer ''loxone.0.A''),
                              Log Debug (MsgHandlingDelayed ''loxone.0.A'' (VNum 7)),
                              ListenerCall 0 None (VNum 7)]
   \<and> queuedVal (listenEntries (checkStateForAck (\<lambda>v. v) ''loxone.0.A'' queuedExample) 0) = VNull
   \<and> ackTimer (listenEntries (checkStateForAck (\<lambda>v. v) ''loxone.0.A'' queuedExample) 0) = Some 2
   \<and> timers (checkStateForAck (\<lambda>v. v) ''loxone.0.A'' queuedExample)
     = [\<lparr>handle = 1, due = 30000, cb = InfoTimeoutCb ''info.stateChangesDelayed'' 3\<rparr>,
        \<lparr>handle = 2, due = 500, cb = AckTimeoutCb ''loxone.0.A'' 0\<rparr>]
   \<and> checkStateForAck (\<lambda>v. v) ''loxone.0.B'' queuedExample
     = log Silly (MsgNoListener ''loxone.0.B'') queuedExample"
proof -
  have h: "map_of (stateChangeListeners queuedExample) ''loxone.0.A'' = Some 0 \<and>
           ackTimer (listenEntries queuedExample 0) = Some 0"
    "queuedVal (listenEntries queuedExample 0) \<noteq> VNull \<and>
     callsListener (\<lambda>v. v) ''loxone.0.A'' 0 (queuedVal (listenEntries queuedExample 0)) queuedExample"
    by (simp_all add: queuedExample_facts queuedExample_more callsListener_def optSelfAck_def
          optNotIfEqual_def)
  have b: "map_of (stateChangeListeners queuedExample) ''loxone.0.B'' = None"
    using queuedExample_facts(2)
    by (simp add: queuedExample_def pendingExample_def connectedWith_def run_defs ack_defs)
  note a = confirmation_clears_timer_then_delivers_queued_value
             [of queuedExample "''loxone.0.A''" "\<lambda>v. v" 0 0, unfolded Let_def,
              THEN conjunct2, THEN conjunct2, rule_format, OF h(1),
              THEN conjunct2, THEN conjunct2, THEN conjunct2, THEN conjunct2, THEN conjunct2,
              rule_format, OF h(2)]
  note n = confirmation_clears_timer_then_delivers_queued_value
             [of queuedExample "''loxone.0.B''" "\<lambda>v. v" 0 0, THEN conjunct1, rule_format, OF b]
  show ?thesis
    using a n
    by (simp add: queuedExample_facts queuedExample_more coerce_def optAckTimeoutMs_def
          ackTimeoutMs_default_def)
qed

subsection \<open>A write, a second write and the timeout\<close>

text \<open>
  The scenario of claim C2: the item \<open>A\<close> is registered with an acknowledgement
  timeout of 100, its acknowledged value \<open>prev\<close> is cached at start-up, the adapter
  is connected. 5 is written at time 0, 7 at a time \<open>t\<close>, and time passes until 100.
\<close>

definition scenarioStart :: "StateValue \<Rightarrow> Loxone" where
  "scenarioStart prev =
     onReady (\<lambda>v. v) (\<lambda>i. None) [(''loxone.0.A'', Some \<lparr>val = prev, ack = True\<rparr>)]
       \<lparr>openOk = True,
        structureFile = Some
          \<lparr>bindings = [BindStateChangeListener ''A''
                         (Some \<lparr>notIfEqual = False, convertToInt = False, minInt = None,
                                maxInt = None, ackTimeoutMs = Some 100, selfAck = False\<rparr>)],
           loadThrows = False\<rparr>,
        enableOk = True, arrivals = []\<rparr>
       (newAdapter ''loxone.0'')"

definition afterFirstWrite :: "(StateValue \<Rightarrow> StateValue) \<Rightarrow> StateValue \<Rightarrow> Loxone" where
  "afterFirstWrite pI prev =
     onStateChange pI ''loxone.0.A'' (Some (requested (VNum 5))) (scenarioStart prev)"

definition afterSecondWrite :: "(StateValue \<Rightarrow> StateValue) \<Rightarrow> StateValue \<Rightarrow> nat \<Rightarrow> Loxone" where
  "afterSecondWrite pI prev t =
     onStateChange pI ''loxone.0.A'' (Some (requested (VNum 7))) ((afterFirstWrite pI prev)\<lparr>now := t\<rparr>)"

lemmas scenario_defs =
  afterSecondWrite_def afterFirstWrite_def scenarioStart_def run_defs ack_defs
  isListenerCall_def isPendingReport_def fire_def runCallback_def ackTimeout_def

lemma afterFirstWrite_facts:
  "filter isListenerCall (trace (afterFirstWrite pI prev)) = [ListenerCall 0 (Some prev) (VNum 5)]"
  "timers (afterFirstWrite pI prev) = [\<lparr>handle = 0, due = 100, cb = AckTimeoutCb ''loxone.0.A'' 0\<rparr>]"
  "now (afterFirstWrite pI prev) = 0"
  by (simp_all add: scenario_defs)

lemma afterSecondWrite_facts:
  "filter isListenerCall (trace (afterSecondWrite pI prev t)) = [ListenerCall 0 (Some prev) (VNum 5)]"
  "filter isPendingReport (trace (afterSecondWrite pI prev t)) = [Log Warn (MsgDelaying ''loxone.0.A'' (VNum 7))]"
  "timers (afterSecondWrite pI prev t)
     = [\<lparr>handle = 0, due = 100, cb = AckTimeoutCb ''loxone.0.A'' 0\<rparr>,
        \<lparr>handle = 1, due = t + 30000, cb = InfoTimeoutCb ''info.stateChangesDelayed'' 3\<rparr>]"
  by (simp_all add: scenario_defs)


text \<open>A connection attempt that fails at its first step; no timer of the scenario uses it.\<close>

definition unreachable :: ConnectEnv where
  "unreachable = \<lparr>openOk = False, structureFile = None, enableOk = False, arrivals = []\<rparr>"

text \<open>
  Claim C2 fails as it is stated: when the timer fires, no confirmation has come, so
  the cached value of the item is still the one from before the first write, and the
  listener is called with it. With the value 0 cached at the start, the second call
  is made with (0, 7), not with (5, 7).
\<close>

theorem timeout_delivers_with_the_value_before_the_first_write:
  "map_option (\<lambda>s. filter isListenerCall (trace s))
     (advance 1 (\<lambda>v. v) unreachable 100 (afterSecondWrite (\<lambda>v. v) (VNum 0) 50))
     = Some [ListenerCall 0 (Some (VNum 0)) (VNum 5), ListenerCall 0 (Some (VNum 0)) (VNum 7)]"
  by (simp add: scenario_defs)

text \<open>
  Claim C2, amended. For the item \<open>A\<close> registered with an acknowledgement timeout of
  100 and with the cached value \<open>prev\<close>: the write of 5 calls the listener with
  (\<open>prev\<close>, 5) and starts a timer due at 100; no timer fires before the time \<open>t\<close>,
  which is before 100; the write of 7 at \<open>t\<close> is reported as delayed and calls no
  listener; nothing more is called until 99; and when the time reaches 100 the timer
  fires and the listener is called with (\<open>prev\<close>, 7).
\<close>

theorem write_then_write_then_timeout:
  assumes "t < 100"
  shows "filter isListenerCall (trace (afterFirstWrite pI prev)) = [ListenerCall 0 (Some prev) (VNum 5)]
       \<and> timers (afterFirstWrite pI prev) = [\<lparr>handle = 0, due = 100, cb = AckTimeoutCb ''loxone.0.A'' 0\<rparr>]
       \<and> advance n pI env t (afterFirstWrite pI prev) = Some ((afterFirstWrite pI prev)\<lparr>now := t\<rparr>)
       \<and> filter isListenerCall (trace (afterSecondWrite pI prev t)) = [ListenerCall 0 (Some prev) (VNum 5)]
       \<and> filter isPendingReport (trace (afterSecondWrite pI prev t))
           = [Log Warn (MsgDelaying ''loxone.0.A'' (VNum 7))]
       \<and> map_option (\<lambda>s. filter isListenerCall (trace s)) (advance n pI env 99 (afterSecondWrite pI prev t))
           = Some [ListenerCall 0 (Some prev) (VNum 5)]
       \<and> map_option (\<lambda>s. (now s, filter isListenerCall (trace s)))
             (advance (Suc n) pI env 100 (afterSecondWrite pI prev t))
           = Some (100, [ListenerCall 0 (Some prev) (VNum 5), ListenerCall 0 (Some prev) (VNum 7)])"
proof -
  have 1: "advance n pI env t (afterFirstWrite pI prev) = Some ((afterFirstWrite pI prev)\<lparr>now := t\<rparr>)"
    using assms by (simp add: afterFirstWrite_facts)
  have 2: "map_option (\<lambda>s. filter isListenerCall (trace s)) (advance n pI env 99 (afterSecondWrite pI prev t))
           = Some [ListenerCall 0 (Some prev) (VNum 5)]"
    using assms by (simp add: afterSecondWrite_facts)
  have 3: "map_option (\<lambda>s. (now s, filter isListenerCall (trace s)))
             (advance (Suc n) pI env 100 (afterSecondWrite pI prev t))
           = Some (100, [ListenerCall 0 (Some prev) (VNum 5), ListenerCall 0 (Some prev) (VNum 7)])"
    using assms by (simp add: scenario_defs)
  show ?thesis
    using 1 2 3 by (simp add: afterFirstWrite_facts afterSecondWrite_facts)
qed

theorem write_then_write_then_timeout_witness:
  "filter isListenerCall (trace (afterFirstWrite (\<lambda>v. v) (VNum 3))) = [ListenerCall 0 (Some (VNum 3)) (VNum 5)]
   \<and> filter isPendingReport (trace (afterSecondWrite (\<lambda>v. v) (VNum 3) 50))
       = [Log Warn (MsgDelaying ''loxone.0.A'' (VNum 7))]
   \<and> map_option (\<lambda>s. (now s, filter isListenerCall (trace s)))
         (advance 1 (\<lambda>v. v) unreachable 100 (afterSecondWrite (\<lambda>v. v) (VNum 3) 50))
       = Some (100, [ListenerCall 0 (Some (VNum 3)) (VNum 5), ListenerCall 0 (Some (VNum 3)) (VNum 7)])"
proof -
  have h: "(50::nat) < 100" by simp
  from write_then_write_then_timeout [OF h, of "\<lambda>v. v" "VNum 3" 0 unreachable]
  show ?thesis by simp
qed

subsection \<open>Draining the event queue\<close>

text \<open>
  The identifiers of the events that were dequeued and of the events that were
  delivered, in the order of the trace.
\<close>

definition dequeuedBy :: "Effect \<Rightarrow> string list" where
  "dequeuedBy e = (case e of Log l m \<Rightarrow> (case m of MsgDequeued u \<Rightarrow> [u] | _ \<Rightarrow> []) | _ \<Rightarrow> [])"

definition deliveredBy :: "Effect \<Rightarrow> string list" where
  "deliveredBy e = (case e of Log l m \<Rightarrow> (case m of MsgReceived u v \<Rightarrow> [u] | _ \<Rightarrow> []) | _ \<Rightarrow> [])"

definition dequeued :: "Effect list \<Rightarrow> string list" where
  "dequeued es = concat (map dequeuedBy es)"

definition delivered :: "Effect list \<Rightarrow> string list" where
  "delivered es = concat (map deliveredBy es)"

definition isQueueLog :: "Effect \<Rightarrow> bool" where
  "isQueueLog e =
     (case e of
        Log l m \<Rightarrow> (case m of MsgDequeued u \<Rightarrow> True | MsgReceived u v \<Rightarrow> True | _ \<Rightarrow> False)
      | _ \<Rightarrow> False)"

definition queueLogs :: "Effect list \<Rightarrow> Effect list" where
  "queueLogs es = filter isQueueLog es"

lemma queueLogs_simps [simp]:
  "queueLogs [] = []"
  "queueLogs (xs @ ys) = queueLogs xs @ queueLogs ys"
  "queueLogs (e # es) = (if isQueueLog e then e # queueLogs es else queueLogs es)"
  by (simp_all add: queueLogs_def)

lemma not_queueLog:
  "\<not> isQueueLog e \<Longrightarrow> dequeuedBy e = []"
  "\<not> isQueueLog e \<Longrightarrow> deliveredBy e = []"
  by (auto simp add: isQueueLog_def dequeuedBy_def deliveredBy_def
        split: Effect.splits Message.splits)

lemma dequeued_simps [simp]:
  "dequeued [] = []"
  "dequeued (xs @ ys) = dequeued xs @ dequeued ys"
  "dequeued (e # es) = dequeuedBy e @ dequeued es"
  by (simp_all add: dequeued_def)

lemma delivered_simps [simp]:
  "delivered [] = []"
  "delivered (xs @ ys) = delivered xs @ delivered ys"
  "delivered (e # es) = deliveredBy e @ delivered es"
  by (simp_all add: delivered_def)

lemma dequeued_queueLogs: "dequeued (queueLogs es) = dequeued es"
  by (induction es) (simp_all add: not_queueLog)

lemma delivered_queueLogs: "delivered (queueLogs es) = delivered es"
  by (induction es) (simp_all add: not_queueLog)

lemma queueLogs_setInfoStateIfChanged [simp]:
  "queueLogs (trace (setInfoStateIfChanged ident r sd s)) = queueLogs (trace s)"
  by (simp add: setInfoStateIfChanged_def Let_def case_prod_beta isQueueLog_def
        split: option.splits)

lemma queueLogs_incInfoState [simp]:
  "queueLogs (trace (incInfoState ident d v s)) = queueLogs (trace s)"
  by (simp add: incInfoState_def getInfoEntry_def Let_def isQueueLog_def split: option.splits)

lemma queueLogs_ack [simp]:
  "queueLogs (trace (handleStateChange pI ident r v s)) = queueLogs (trace s)"
  "queueLogs (trace (handleDelayedStateChange pI ident r s)) = queueLogs (trace s)"
  "queueLogs (trace (checkStateForAck pI ident s)) = queueLogs (trace s)"
  "queueLogs (trace (setStateAck pI ident v s)) = queueLogs (trace s)"
proof (induction pI ident r v s and pI ident r s and pI ident s and pI ident v s
    rule: handleStateChange_handleDelayedStateChange_checkStateForAck_setStateAck.induct)
  case (1 pI ident r val0 s)
  then show ?case
    by (subst handleStateChange.simps) (simp add: Let_def case_prod_beta isQueueLog_def)
next
  case (2 pI ident r s)
  then show ?case
    by (subst handleDelayedStateChange.simps) (simp add: Let_def isQueueLog_def)
next
  case (3 pI ident s)
  then show ?case
    by (subst checkStateForAck.simps) (simp add: Let_def isQueueLog_def split: option.splits)
next
  case (4 pI ident v s)
  then show ?case
    by (subst setStateAck.simps) (simp add: Let_def isQueueLog_def)
qed

lemma queueLogs_runHandler [simp]:
  "queueLogs (trace (runHandler pI u steps s)) = queueLogs (trace s)"
  by (induction pI u steps s rule: runHandler.induct) (simp_all add: isQueueLog_def)

lemma queueLogs_foldl:
  assumes "\<And>x t. queueLogs (trace (f t x)) = queueLogs (trace t)"
  shows "queueLogs (trace (foldl f s xs)) = queueLogs (trace s)"
  using assms by (induction xs arbitrary: s) simp_all

lemma queueLogs_handleEvent [simp]:
  "queueLogs (trace (handleEvent pI e s)) = queueLogs (trace s)"
  by (simp add: handleEvent_def queueLogs_foldl isQueueLog_def split: option.splits)

text \<open>A delivery while a drain is in progress: the event is appended, nothing else happens.\<close>

lemma handleAnyEvent_busy:
  assumes "runQueue s" and "queueRunning s"
  shows "handleAnyEvent pI arr e s
           = s\<lparr>eventsQueue := eventsQueue s @ [e],
               trace := trace s @ [Log Silly (MsgReceived (uuid e) (evt e)), Log Silly MsgQueueInProgress]\<rparr>"
  using assms
  by (simp add: handleAnyEvent.simps handleEventQueue.simps Let_def log_def emit_def)

lemma deliveries_busy:
  assumes "runQueue s" and "queueRunning s"
  shows "foldl (\<lambda>s' a. handleAnyEvent pI arr a s') s batch
           = s\<lparr>eventsQueue := eventsQueue s @ batch,
               trace := trace s @ concat (map (\<lambda>e. [Log Silly (MsgReceived (uuid e) (evt e)),
                                                       Log Silly MsgQueueInProgress]) batch)\<rparr>"
  using assms
proof (induction batch arbitrary: s)
  case Nil
  then show ?case by simp
next
  case (Cons a batch)
  have "runQueue (handleAnyEvent pI arr a s)" "queueRunning (handleAnyEvent pI arr a s)"
    using Cons.prems by (simp_all add: handleAnyEvent_busy)
  from Cons.IH [OF this] show ?case
    using Cons.prems by (simp add: handleAnyEvent_busy)
qed

lemma delivered_batch:
  "delivered (concat (map (\<lambda>e. [Log Silly (MsgReceived (uuid e) (evt e)), Log Silly MsgQueueInProgress]) batch))
     = map uuid batch"
  "dequeued (concat (map (\<lambda>e. [Log Silly (MsgReceived (uuid e) (evt e)), Log Silly MsgQueueInProgress]) batch))
     = []"
  by (induction batch) (simp_all add: dequeuedBy_def deliveredBy_def)


lemma handleEvent_queue_view [simp]:
  "dequeued (trace (handleEvent pI e s)) = dequeued (trace s)"
  "delivered (trace (handleEvent pI e s)) = delivered (trace s)"
  "eventsQueue (handleEvent pI e s) = eventsQueue s"
  "runQueue (handleEvent pI e s) = runQueue s"
  "queueRunning (handleEvent pI e s) = queueRunning s"
  using dequeued_queueLogs [of "trace (handleEvent pI e s)"] dequeued_queueLogs [of "trace s"]
    delivered_queueLogs [of "trace (handleEvent pI e s)"] delivered_queueLogs [of "trace s"]
    core_fields(6,7,8) [OF core_handleEvent, of pI e s]
  by simp_all

text \<open>One round of the loop: the state in which the next event is dequeued.\<close>

definition afterDispatch ::
  "(StateValue \<Rightarrow> StateValue) \<Rightarrow> LoxoneEvent list list \<Rightarrow> LoxoneEvent \<Rightarrow> LoxoneEvent list \<Rightarrow> Loxone \<Rightarrow> Loxone" where
  "afterDispatch pI arr e q s =
     foldl (\<lambda>s' a. handleAnyEvent pI (tl arr) a s')
       (handleEvent pI e (log Silly (MsgDequeued (uuid e)) (s\<lparr>eventsQueue := q\<rparr>)))
       (case arr of [] \<Rightarrow> [] | batch # later \<Rightarrow> batch)"

lemma drain_step:
  "eventsQueue s = e # q \<Longrightarrow> drain pI arr s = drain pI (tl arr) (afterDispatch pI arr e q s)"
  by (subst drain.simps) (simp add: afterDispatch_def Let_def split: list.splits)

lemma drain_empty: "eventsQueue s = [] \<Longrightarrow> drain pI arr s = s"
  by (subst drain.simps) simp

lemma afterDispatch_view:
  assumes "runQueue s" and "queueRunning s"
  shows "runQueue (afterDispatch pI arr e q s)" and "queueRunning (afterDispatch pI arr e q s)"
    and "eventsQueue (afterDispatch pI arr e q s) = q @ concat (take 1 arr)"
    and "dequeued (trace (afterDispatch pI arr e q s)) = dequeued (trace s) @ [uuid e]"
    and "delivered (trace (afterDispatch pI arr e q s))
           = delivered (trace s) @ map uuid (concat (take 1 arr))"
proof -
  let ?s1 = "handleEvent pI e (log Silly (MsgDequeued (uuid e)) (s\<lparr>eventsQueue := q\<rparr>))"
  have r: "runQueue ?s1" "queueRunning ?s1" using assms by simp_all
  note d = deliveries_busy [OF r]
  show "runQueue (afterDispatch pI arr e q s)" "queueRunning (afterDispatch pI arr e q s)"
    using r by (simp_all add: afterDispatch_def d)
  show "eventsQueue (afterDispatch pI arr e q s) = q @ concat (take 1 arr)"
    by (cases arr) (simp_all add: afterDispatch_def d)
  show "dequeued (trace (afterDispatch pI arr e q s)) = dequeued (trace s) @ [uuid e]"
    by (cases arr) (simp_all add: afterDispatch_def d delivered_batch dequeuedBy_def)
  show "delivered (trace (afterDispatch pI arr e q s))
           = delivered (trace s) @ map uuid (concat (take 1 arr))"
    by (cases arr) (simp_all add: afterDispatch_def d delivered_batch deliveredBy_def)
qed

lemma drain_fifo:
  assumes "runQueue s" and "queueRunning s"
  shows "eventsQueue (drain pI arr s) = [] \<and> runQueue (drain pI arr s) \<and> queueRunning (drain pI arr s) \<and>
         (\<exists>n. dequeued (trace (drain pI arr s))
                 = dequeued (trace s) @ map uuid (eventsQueue s @ concat (take n arr)) \<and>
               delivered (trace (drain pI arr s))
                 = delivered (trace s) @ map uuid (concat (take n arr)) \<and>
               length (dequeued (trace (drain pI arr s))) = length (dequeued (trace s)) + n)"
  using assms
proof (induction "(length arr, length (eventsQueue s))" arbitrary: arr s
    rule: wf_induct [OF wf_lex_prod [OF wf_less_than wf_less_than]])
  case 1
  show ?case
  proof (cases "eventsQueue s")
    case Nil
    then show ?thesis
      using "1.prems" by (auto simp add: drain_empty intro: exI [of _ 0])
  next
    case (Cons e q)
    let ?s1 = "afterDispatch pI arr e q s"
    note v = afterDispatch_view [OF "1.prems", of pI arr e q]
    have less: "((length (tl arr), length (eventsQueue ?s1)), (length arr, length (eventsQueue s)))
                  \<in> less_than <*lex*> less_than"
      using Cons v(3) by (cases arr) simp_all
    from "1.hyps" [rule_format, OF less refl v(1,2)]
    obtain n where n: "eventsQueue (drain pI (tl arr) ?s1) = []" "runQueue (drain pI (tl arr) ?s1)"
      "queueRunning (drain pI (tl arr) ?s1)"
      "dequeued (trace (drain pI (tl arr) ?s1))
         = dequeued (trace ?s1) @ map uuid (eventsQueue ?s1 @ concat (take n (tl arr)))"
      "delivered (trace (drain pI (tl arr) ?s1))
         = delivered (trace ?s1) @ map uuid (concat (take n (tl arr)))"
      "length (dequeued (trace (drain pI (tl arr) ?s1))) = length (dequeued (trace ?s1)) + n"
      by blast
    have t: "concat (take 1 arr) @ concat (take n (tl arr)) = concat (take (Suc n) arr)"
      by (cases arr) simp_all
    have "dequeued (trace (drain pI arr s))
            = dequeued (trace s) @ map uuid (eventsQueue s @ concat (take (Suc n) arr))"
      using n(4) by (simp add: drain_step [OF Cons] v Cons t [symmetric])
    moreover have "delivered (trace (drain pI arr s))
            = delivered (trace s) @ map uuid (concat (take (Suc n) arr))"
      using n(5) by (simp add: drain_step [OF Cons] v t [symmetric])
    moreover have "length (dequeued (trace (drain pI arr s))) = length (dequeued (trace s)) + Suc n"
      using n(6) by (simp add: drain_step [OF Cons] v)
    ultimately show ?thesis
      using n(1,2,3) by (auto simp add: drain_step [OF Cons])
  qed
qed

text \<open>
  Claim C4. \<^verbatim>\<open>handleEventQueue\<close> does nothing but write a log line while the queue
  is stopped or a drain is in progress. Otherwise it returns with an empty queue, the
  drain flag reset and the queue still running, and the events it dequeued are, in
  this order, the events that were in the queue when it started followed by the events
  that were delivered while it ran, which are those of the first \<open>n\<close> elements of
  \<open>arrivals\<close>, where \<open>n\<close> is the number of events it dequeued: every event delivered
  during the drain is handled within the same call. The events are handled one at a
  time: the next event is dequeued in the state that the complete handling of the
  previous one (with the deliveries made in the meantime) has left. With no
  deliveries during the drain the dequeued events are those of the queue, first in,
  first out.
\<close>

theorem handleEventQueue_drains_in_order:
  "(\<not> runQueue s \<longrightarrow> handleEventQueue pI arr s = log Silly MsgQueueStopped s) \<and>
   (runQueue s \<and> queueRunning s \<longrightarrow> handleEventQueue pI arr s = log Silly MsgQueueInProgress s) \<and>
   (runQueue s \<and> \<not> queueRunning s \<longrightarrow>
      (let s' = handleEventQueue pI arr s;
           n = length (dequeued (trace s')) - length (dequeued (trace s))
       in eventsQueue s' = [] \<and> \<not> queueRunning s' \<and> runQueue s' \<and>
          dequeued (trace s') = dequeued (trace s) @ map uuid (eventsQueue s @ concat (take n arr)) \<and>
          delivered (trace s') = delivered (trace s) @ map uuid (concat (take n arr)))) \<and>
   (runQueue s \<and> \<not> queueRunning s \<and> arr = [] \<longrightarrow>
      dequeued (trace (handleEventQueue pI arr s)) = dequeued (trace s) @ map uuid (eventsQueue s)) \<and>
   (eventsQueue s = e # q \<longrightarrow> drain pI arr s = drain pI (tl arr) (afterDispatch pI arr e q s)) \<and>
   (eventsQueue s = [] \<longrightarrow> drain pI arr s = s)"
proof -
  let ?s2 = "log Silly (MsgProcessing (length (eventsQueue s))) (s\<lparr>queueRunning := True\<rparr>)"
  have run: "handleEventQueue pI arr s = log Silly MsgQueueDone ((drain pI arr ?s2)\<lparr>queueRunning := False\<rparr>)"
    if "runQueue s \<and> \<not> queueRunning s"
    using that by (subst handleEventQueue.simps) (simp add: Let_def)
  have main: "let s' = handleEventQueue pI arr s;
           n = length (dequeued (trace s')) - length (dequeued (trace s))
       in eventsQueue s' = [] \<and> \<not> queueRunning s' \<and> runQueue s' \<and>
          dequeued (trace s') = dequeued (trace s) @ map uuid (eventsQueue s @ concat (take n arr)) \<and>
          delivered (trace s') = delivered (trace s) @ map uuid (concat (take n arr))"
    if r: "runQueue s \<and> \<not> queueRunning s"
  proof -
    have "runQueue ?s2" "queueRunning ?s2" using r by simp_all
    from drain_fifo [OF this, of pI arr] obtain n where
      n: "eventsQueue (drain pI arr ?s2) = []" "runQueue (drain pI arr ?s2)"
         "dequeued (trace (drain pI arr ?s2))
            = dequeued (trace ?s2) @ map uuid (eventsQueue ?s2 @ concat (take n arr))"
         "delivered (trace (drain pI arr ?s2))
            = delivered (trace ?s2) @ map uuid (concat (take n arr))"
         "length (dequeued (trace (drain pI arr ?s2))) = length (dequeued (trace ?s2)) + n"
      by blast
    have eq: "dequeued (trace (handleEventQueue pI arr s))
              = dequeued (trace s) @ map uuid (eventsQueue s @ concat (take n arr))"
          "delivered (trace (handleEventQueue pI arr s))
              = delivered (trace s) @ map uuid (concat (take n arr))"
          "length (dequeued (trace (handleEventQueue pI arr s))) - length (dequeued (trace s)) = n"
      using n(3,4,5) by (simp_all add: run [OF r] dequeuedBy_def deliveredBy_def)
    have "eventsQueue (handleEventQueue pI arr s) = []"
      "\<not> queueRunning (handleEventQueue pI arr s)" "runQueue (handleEventQueue pI arr s)"
      using n(1,2) by (simp_all add: run [OF r])
    then show ?thesis
      unfolding Let_def eq(3) using eq(1,2) by simp
  qed
  have none: "dequeued (trace (handleEventQueue pI arr s)) = dequeued (trace s) @ map uuid (eventsQueue s)"
    if "runQueue s \<and> \<not> queueRunning s \<and> arr = []"
    using main that by (simp add: Let_def)
  have stopped: "handleEventQueue pI arr s = log Silly MsgQueueStopped s" if "\<not> runQueue s"
    using that by (subst handleEventQueue.simps) simp
  have busy: "handleEventQueue pI arr s = log Silly MsgQueueInProgress s"
    if "runQueue s \<and> queueRunning s"
    using that by (subst handleEventQueue.simps) simp
  show ?thesis
    using stopped busy main none drain_step [of s e q pI arr] drain_empty [of s pI arr]
    by blast
qed

text \<open>
  A running, idle adapter with one event in its queue and a handler for it that
  confirms a value; two further events are delivered while the first is handled.
\<close>

definition drainExample :: Loxone where
  "drainExample =
     (connectedWith [BindStateEventHandler ''u1'' (\<lambda>v. [CallSetStateAck ''X'' v]) None])
       \<lparr>eventsQueue := [\<lparr>uuid = ''u1'', evt = VNum 1\<rparr>]\<rparr>"

definition drainArrivals :: "LoxoneEvent list list" where
  "drainArrivals = [[\<lparr>uuid = ''u2'', evt = VNum 2\<rparr>, \<lparr>uuid = ''u3'', evt = VNum 3\<rparr>]]"

theorem handleEventQueue_drains_in_order_witness:
  "eventsQueue (handleEventQueue (\<lambda>v. v) drainArrivals drainExample) = [] \<and>
   \<not> queueRunning (handleEventQueue (\<lambda>v. v) drainArrivals drainExample) \<and>
   runQueue (handleEventQueue (\<lambda>v. v) drainArrivals drainExample) \<and>
   delivered (trace (handleEventQueue (\<lambda>v. v) drainArrivals drainExample)) = [''u2'', ''u3''] \<and>
   dequeued (trace (handleEventQueue (\<lambda>v. v) drainArrivals drainExample)) = [''u1'', ''u2'', ''u3'']"
proof -
  let ?s' = "handleEventQueue (\<lambda>v. v) drainArrivals drainExample"
  let ?n = "length (dequeued (trace ?s')) - length (dequeued (trace drainExample))"
  have h: "runQueue drainExample \<and> \<not> queueRunning drainExample"
    by (simp add: drainExample_def connectedWith_def run_defs)
  have t: "dequeued (trace drainExample) = []" "delivered (trace drainExample) = []"
    "eventsQueue drainExample = [\<lparr>uuid = ''u1'', evt = VNum 1\<rparr>]"
    by (simp_all add: drainExample_def connectedWith_def run_defs dequeuedBy_def deliveredBy_def)
  note c = handleEventQueue_drains_in_order
         [of drainExample "\<lambda>v. v" drainArrivals, THEN conjunct2, THEN conjunct2, THEN conjunct1,
          rule_format, OF h, unfolded Let_def]
  have d: "dequeued (trace ?s') = ''u1'' # map uuid (concat (take ?n drainArrivals))"
    using c by (simp add: t)
  then have "?n \<noteq> 0" by (auto simp add: t)
  then have "take ?n drainArrivals = drainArrivals"
    by (cases ?n) (simp_all add: drainArrivals_def)
  then show ?thesis
    using c d by (simp add: t drainArrivals_def)
qed

subsection \<open>Persisting the counters\<close>

text \<open>The values of a counter that were written to the state store, in the order of the trace.\<close>

definition persistedBy :: "string \<Rightarrow> Effect \<Rightarrow> int option list" where
  "persistedBy ident e = (case e of SetState i v \<Rightarrow> if i = ident then [v] else [] | _ \<Rightarrow> [])"

definition persisted :: "string \<Rightarrow> Effect list \<Rightarrow> int option list" where
  "persisted ident es = concat (map (persistedBy ident) es)"

lemma persisted_simps [simp]:
  "persisted ident [] = []"
  "persisted ident (xs @ ys) = persisted ident xs @ persisted ident ys"
  "persisted ident (e # es) = persistedBy ident e @ persisted ident es"
  by (simp_all add: persisted_def)

lemma setInfoStateIfChanged_same:
  "ivalue (infoEntries s r) = lastSet (infoEntries s r) \<Longrightarrow> setInfoStateIfChanged ident r sd s = s"
  by (simp add: setInfoStateIfChanged_def)

lemma setInfoStateIfChanged_changed:
  assumes "ivalue (infoEntries s r) \<noteq> lastSet (infoEntries s r)"
  shows "setInfoStateIfChanged ident r False s
           = s\<lparr>trace := trace s
                   @ [Log Silly (MsgValueChanged ident (ivalue (infoEntries s r))),
                      SetState ident (ivalue (infoEntries s r))]
                   @ (case detailsMap (infoEntries s r) of
                        Some dm \<Rightarrow> [SetStateDetail (ident @ ''Detail'') (buildInfoDetails dm)]
                      | None \<Rightarrow> [])
                   @ [Log Silly (MsgStartingTimer ident)],
               infoEntries := (infoEntries s)
                 (r := (infoEntries s r)\<lparr>lastSet := ivalue (infoEntries s r), timer := Some (nextTimeout s)\<rparr>),
               timers := timers s @ [\<lparr>handle = nextTimeout s, due = now s + 30000, cb = InfoTimeoutCb ident r\<rparr>],
               nextTimeout := Suc (nextTimeout s)\<rparr>"
    and "setInfoStateIfChanged ident r True s
           = s\<lparr>trace := trace s
                   @ [Log Silly (MsgValueChanged ident (ivalue (infoEntries s r))),
                      SetState ident (ivalue (infoEntries s r))]
                   @ (case detailsMap (infoEntries s r) of
                        Some dm \<Rightarrow> [SetStateDetail (ident @ ''Detail'') (buildInfoDetails dm)]
                      | None \<Rightarrow> []),
               infoEntries := (infoEntries s)
                 (r := (infoEntries s r)\<lparr>lastSet := ivalue (infoEntries s r)\<rparr>)\<rparr>"
  using assms
  by (simp_all add: setInfoStateIfChanged_def Let_def setTimeout_def updInfoEntry_def log_def
        emit_def infoTimeoutMs_def split: option.splits)

lemma incInfoState_armed:
  assumes "map_of (info s) ident = Some r" and "timer (infoEntries s r) = Some h"
  shows "persisted i (trace (incInfoState ident d v s)) = persisted i (trace s)"
    and "timers (incInfoState ident d v s) = timers s"
    and "ivalue (infoEntries (incInfoState ident d v s) r) = Some (Number (ivalue (infoEntries s r)) + 1)"
    and "lastSet (infoEntries (incInfoState ident d v s) r) = lastSet (infoEntries s r)"
    and "timer (infoEntries (incInfoState ident d v s) r) = Some h"
  using assms
  by (simp_all add: incInfoState_def getInfoEntry_def Let_def updInfoEntry_def split: option.splits)

lemma incInfoState_recorded:
  assumes "map_of (info s) ident = Some r"
  shows "ivalue (infoEntries (incInfoState ident d v s) r) = Some (Number (ivalue (infoEntries s r)) + 1)"
    and "timer (infoEntries (incInfoState ident d v s) r) \<noteq> None \<or>
         lastSet (infoEntries (incInfoState ident d v s) r) = ivalue (infoEntries (incInfoState ident d v s) r)"
  using assms
  by (simp_all add: incInfoState_def getInfoEntry_def Let_def updInfoEntry_def
        setInfoStateIfChanged_def setTimeout_def log_def emit_def split: option.splits)

lemma infoTimeout_flushes:
  "timer (infoEntries (infoTimeout ident r s) r) \<noteq> None \<or>
   lastSet (infoEntries (infoTimeout ident r s) r) = ivalue (infoEntries (infoTimeout ident r s) r)"
  "ivalue (infoEntries (infoTimeout ident r s) r) = ivalue (infoEntries s r)"
  "lastSet (infoEntries (infoTimeout ident r s) r) = ivalue (infoEntries s r)"
  "persisted ident (trace (infoTimeout ident r s))
     = persisted ident (trace s)
       @ (if ivalue (infoEntries s r) \<noteq> lastSet (infoEntries s r) then [ivalue (infoEntries s r)] else [])"
  by (simp_all add: infoTimeout_def Let_def updInfoEntry_def
        setInfoStateIfChanged_def setTimeout_def log_def emit_def persistedBy_def split: option.splits)


text \<open>One round of the loop of \<^verbatim>\<open>flushInfoStates\<close>.\<close>

definition flushOne :: "string \<Rightarrow> nat \<Rightarrow> Loxone \<Rightarrow> Loxone" where
  "flushOne key r s =
     (case timer (infoEntries s r) of
        Some h \<Rightarrow> setInfoStateIfChanged key r True (clearTimeout h s)
      | None \<Rightarrow> s)"

lemma flushInfoStates_loop_Cons:
  "flushInfoStates_loop ((key, r) # rest) s = flushInfoStates_loop rest (flushOne key r s)"
  by (simp add: flushOne_def)

lemma flushOne_facts:
  "timer (infoEntries (flushOne key r s) r') = timer (infoEntries s r')"
  "ivalue (infoEntries (flushOne key r s) r') = ivalue (infoEntries s r')"
  "set (timers (flushOne key r s)) \<subseteq> set (timers s)"
  "timer (infoEntries s r) = Some h \<Longrightarrow> h \<notin> handle ` set (timers (flushOne key r s))"
  "r' \<noteq> r \<Longrightarrow> infoEntries (flushOne key r s) r' = infoEntries s r'"
  "timer (infoEntries s r) \<noteq> None \<Longrightarrow>
     lastSet (infoEntries (flushOne key r s) r) = ivalue (infoEntries s r)"
  "lastSet (infoEntries s r') = ivalue (infoEntries s r') \<Longrightarrow>
     lastSet (infoEntries (flushOne key r s) r') = ivalue (infoEntries s r')"
  "set (trace s) \<subseteq> set (trace (flushOne key r s))"
  "timer (infoEntries s r) \<noteq> None \<Longrightarrow> ivalue (infoEntries s r) \<noteq> lastSet (infoEntries s r) \<Longrightarrow>
     SetState key (ivalue (infoEntries s r)) \<in> set (trace (flushOne key r s))"
  by (auto simp add: flushOne_def setInfoStateIfChanged_def Let_def updInfoEntry_def log_def
        emit_def clearTimeout_def split: option.splits)

lemma flush_loop_stable:
  "timer (infoEntries (flushInfoStates_loop xs s) r') = timer (infoEntries s r')
   \<and> ivalue (infoEntries (flushInfoStates_loop xs s) r') = ivalue (infoEntries s r')
   \<and> set (timers (flushInfoStates_loop xs s)) \<subseteq> set (timers s)
   \<and> set (trace s) \<subseteq> set (trace (flushInfoStates_loop xs s))
   \<and> (lastSet (infoEntries s r') = ivalue (infoEntries s r') \<longrightarrow>
        lastSet (infoEntries (flushInfoStates_loop xs s) r') = ivalue (infoEntries s r'))"
proof (induction xs arbitrary: s)
  case Nil
  then show ?case by simp
next
  case (Cons kr xs)
  obtain key r where kr: "kr = (key, r)" by (cases kr)
  note ih = Cons.IH [of "flushOne key r s"]
  show ?case
    unfolding kr flushInfoStates_loop_Cons
    using ih flushOne_facts(1,2,3,7,8) [where key = key and r = r and s = s] by auto
qed

lemma flush_loop_armed:
  assumes "(key, r) \<in> set xs" and "timer (infoEntries s r) = Some h"
  shows "h \<notin> handle ` set (timers (flushInfoStates_loop xs s))
       \<and> lastSet (infoEntries (flushInfoStates_loop xs s) r) = ivalue (infoEntries s r)"
  using assms
proof (induction xs arbitrary: s)
  case Nil
  then show ?case by simp
next
  case (Cons kr xs)
  obtain key' r' where kr: "kr = (key', r')" by (cases kr)
  let ?s1 = "flushOne key' r' s"
  show ?case
  proof (cases "(key, r) = (key', r')")
    case True
    have a: "h \<notin> handle ` set (timers ?s1)" "lastSet (infoEntries ?s1 r) = ivalue (infoEntries ?s1 r)"
      using True Cons.prems(2) flushOne_facts(2,4,6) [where key = key and r = r and s = s]
      by auto
    from flush_loop_stable [of xs ?s1 r] a flushOne_facts(2) [where key = key' and r = r' and s = s]
    show ?thesis
      unfolding kr flushInfoStates_loop_Cons by auto
  next
    case False
    then have "(key, r) \<in> set xs" using Cons.prems(1) kr by auto
    moreover have "timer (infoEntries ?s1 r) = Some h"
      using Cons.prems(2) by (simp add: flushOne_facts(1))
    ultimately show ?thesis
      unfolding kr flushInfoStates_loop_Cons
      using Cons.IH [of ?s1] by (simp add: flushOne_facts(2))
  qed
qed

lemma flush_loop_writes:
  assumes "(key, r) \<in> set xs" and "timer (infoEntries s r) \<noteq> None"
    and "ivalue (infoEntries s r) \<noteq> lastSet (infoEntries s r)" and "distinct (map snd xs)"
  shows "SetState key (ivalue (infoEntries s r)) \<in> set (trace (flushInfoStates_loop xs s))"
  using assms
proof (induction xs arbitrary: s)
  case Nil
  then show ?case by simp
next
  case (Cons kr xs)
  obtain key' r' where kr: "kr = (key', r')" by (cases kr)
  let ?s1 = "flushOne key' r' s"
  show ?case
  proof (cases "(key, r) = (key', r')")
    case True
    then have "SetState key (ivalue (infoEntries s r)) \<in> set (trace ?s1)"
      using Cons.prems(2,3) flushOne_facts(9) [where key = key and r = r and s = s] by simp
    then show ?thesis
      unfolding kr flushInfoStates_loop_Cons
      using flush_loop_stable [of xs ?s1 r] by auto
  next
    case False
    then have in_rest: "(key, r) \<in> set xs" using Cons.prems(1) kr by auto
    then have "r \<noteq> r'" using Cons.prems(4) kr by (auto simp add: image_iff)
    then have same: "infoEntries ?s1 r = infoEntries s r"
      by (simp add: flushOne_facts(5))
    have "distinct (map snd xs)" using Cons.prems(4) by simp
    from Cons.IH [OF in_rest _ _ this, of ?s1] Cons.prems(2,3)
    show ?thesis
      unfolding kr flushInfoStates_loop_Cons by (simp add: same)
  qed
qed


text \<open>
  The scenario of claim C8, in the time units of the source (the claim counts in
  thousands of them): on a fresh installation the counter of received messages is
  incremented at the times 0, 10000 and 40000, and time passes in between.
\<close>

definition counterStart :: Loxone where
  "counterStart = initInfoStates (\<lambda>i. None) (newAdapter ''loxone.0'')"

definition received :: "Loxone \<Rightarrow> Loxone" where
  "received s = incInfoState ''info.messagesReceived'' None None s"

definition later ::
  "(StateValue \<Rightarrow> StateValue) \<Rightarrow> ConnectEnv \<Rightarrow> nat \<Rightarrow> Loxone option \<Rightarrow> Loxone option" where
  "later pI env t so = Option.bind so (advance 2 pI env t)"

definition writes :: "Loxone option \<Rightarrow> int option list option" where
  "writes so = map_option (\<lambda>s. persisted ''info.messagesReceived'' (trace s)) so"

definition incrementedAt10 :: "(StateValue \<Rightarrow> StateValue) \<Rightarrow> ConnectEnv \<Rightarrow> Loxone option" where
  "incrementedAt10 pI env = map_option received (later pI env 10000 (Some (received counterStart)))"

definition incrementedAt40 :: "(StateValue \<Rightarrow> StateValue) \<Rightarrow> ConnectEnv \<Rightarrow> Loxone option" where
  "incrementedAt40 pI env = map_option received (later pI env 40000 (incrementedAt10 pI env))"

lemmas counter_defs =
  counterStart_def received_def later_def writes_def incrementedAt10_def incrementedAt40_def
  initInfoStates_def initInfoState_def newAdapter_def incInfoState_def getInfoEntry_def
  setInfoStateIfChanged_def updInfoEntry_def setTimeout_def infoTimeoutMs_def infoTimeout_def
  fire_def runCallback_def log_def emit_def Let_def Number_def persistedBy_def case_prod_beta

lemma counter_scenario:
  "writes (Some (received counterStart)) = Some [Some 1]"
  "writes (incrementedAt10 pI env) = Some [Some 1]"
  "writes (later pI env 29999 (incrementedAt10 pI env)) = Some [Some 1]"
  "writes (later pI env 30000 (incrementedAt10 pI env)) = Some [Some 1, Some 2]"
  "writes (incrementedAt40 pI env) = Some [Some 1, Some 2]"
  "writes (later pI env 59999 (incrementedAt40 pI env)) = Some [Some 1, Some 2]"
  "writes (later pI env 60000 (incrementedAt40 pI env)) = Some [Some 1, Some 2, Some 3]"
  "writes (later pI env 200000 (incrementedAt40 pI env)) = Some [Some 1, Some 2, Some 3]"
  by (simp_all add: counter_defs)


text \<open>
  Claim C8. \<^verbatim>\<open>setInfoStateIfChanged\<close> does nothing when the value of the counter is the
  one last persisted. Otherwise it persists the value (and the detail breakdown, if
  the counter has one), remembers it as last persisted, and starts a timer that is
  due 30000 time units later, whose handle it stores. The callback of the timer
  forgets the handle and calls \<^verbatim>\<open>setInfoStateIfChanged\<close> again; it runs no earlier
  than the timer is due. While the timer runs, an increment persists nothing and
  starts no timer. No increment is lost: after an increment the value is one more
  than before, and either a timer runs for the counter or the value is persisted; the
  same holds after the callback, which persists the value if it differs from the last
  persisted one. Increments at 0, 10000 and 40000 give persisted writes at 0 (the
  value 1), at 30000 and not before (the value 2) and at 60000 and not before (the
  value 3), and none after. On shutdown, every counter whose timer runs has the timer
  cancelled and its value marked as persisted, and the value is written if it differs
  from the last persisted one (each counter having an entry of its own).
\<close>

theorem counters_are_persisted_once_per_window:
  "(ivalue (infoEntries s r) = lastSet (infoEntries s r) \<longrightarrow>
      setInfoStateIfChanged ident r sd s = s) \<and>
   (ivalue (infoEntries s r) \<noteq> lastSet (infoEntries s r) \<longrightarrow>
      persisted ident (trace (setInfoStateIfChanged ident r False s))
        = persisted ident (trace s) @ [ivalue (infoEntries s r)] \<and>
      (\<forall>dm. detailsMap (infoEntries s r) = Some dm \<longrightarrow>
         SetStateDetail (ident @ ''Detail'') (buildInfoDetails dm)
           \<in> set (trace (setInfoStateIfChanged ident r False s))) \<and>
      lastSet (infoEntries (setInfoStateIfChanged ident r False s) r) = ivalue (infoEntries s r) \<and>
      timer (infoEntries (setInfoStateIfChanged ident r False s) r) = Some (nextTimeout s) \<and>
      timers (setInfoStateIfChanged ident r False s)
        = timers s @ [\<lparr>handle = nextTimeout s, due = now s + 30000, cb = InfoTimeoutCb ident r\<rparr>]) \<and>
   infoTimeout ident r s
     = setInfoStateIfChanged ident r False
         (updInfoEntry r (\<lambda>e. e\<lparr>timer := None\<rparr>) (log Silly (MsgTimeoutFor ident) s)) \<and>
   now (fire pI env \<lparr>handle = h, due = d, cb = InfoTimeoutCb ident r\<rparr> s) = max (now s) d \<and>
   (timer (infoEntries (infoTimeout ident r s) r) \<noteq> None \<or>
    lastSet (infoEntries (infoTimeout ident r s) r) = ivalue (infoEntries (infoTimeout ident r s) r)) \<and>
   persisted ident (trace (infoTimeout ident r s))
     = persisted ident (trace s)
       @ (if ivalue (infoEntries s r) \<noteq> lastSet (infoEntries s r) then [ivalue (infoEntries s r)] else []) \<and>
   (map_of (info s) ident = Some r \<and> timer (infoEntries s r) \<noteq> None \<longrightarrow>
      persisted i (trace (incInfoState ident dI dV s)) = persisted i (trace s) \<and>
      timers (incInfoState ident dI dV s) = timers s) \<and>
   (map_of (info s) ident = Some r \<longrightarrow>
      ivalue (infoEntries (incInfoState ident dI dV s) r) = Some (Number (ivalue (infoEntries s r)) + 1) \<and>
      (timer (infoEntries (incInfoState ident dI dV s) r) \<noteq> None \<or>
       lastSet (infoEntries (incInfoState ident dI dV s) r)
         = ivalue (infoEntries (incInfoState ident dI dV s) r))) \<and>
   writes (Some (received counterStart)) = Some [Some 1] \<and>
   writes (later pI env 29999 (incrementedAt10 pI env)) = Some [Some 1] \<and>
   writes (later pI env 30000 (incrementedAt10 pI env)) = Some [Some 1, Some 2] \<and>
   writes (later pI env 59999 (incrementedAt40 pI env)) = Some [Some 1, Some 2] \<and>
   writes (later pI env 60000 (incrementedAt40 pI env)) = Some [Some 1, Some 2, Some 3] \<and>
   writes (later pI env 200000 (incrementedAt40 pI env)) = Some [Some 1, Some 2, Some 3] \<and>
   ((key, r) \<in> set (info s) \<and> timer (infoEntries s r) = Some h \<longrightarrow>
      h \<notin> handle ` set (timers (flushInfoStates s)) \<and>
      lastSet (infoEntries (flushInfoStates s) r) = ivalue (infoEntries s r) \<and>
      ivalue (infoEntries (flushInfoStates s) r) = ivalue (infoEntries s r) \<and>
      (distinct (map snd (info s)) \<and> ivalue (infoEntries s r) \<noteq> lastSet (infoEntries s r) \<longrightarrow>
         SetState key (ivalue (infoEntries s r)) \<in> set (trace (flushInfoStates s))))"
proof -
  have changed: "persisted ident (trace (setInfoStateIfChanged ident r False s))
        = persisted ident (trace s) @ [ivalue (infoEntries s r)] \<and>
      (\<forall>dm. detailsMap (infoEntries s r) = Some dm \<longrightarrow>
         SetStateDetail (ident @ ''Detail'') (buildInfoDetails dm)
           \<in> set (trace (setInfoStateIfChanged ident r False s))) \<and>
      lastSet (infoEntries (setInfoStateIfChanged ident r False s) r) = ivalue (infoEntries s r) \<and>
      timer (infoEntries (setInfoStateIfChanged ident r False s) r) = Some (nextTimeout s) \<and>
      timers (setInfoStateIfChanged ident r False s)
        = timers s @ [\<lparr>handle = nextTimeout s, due = now s + 30000, cb = InfoTimeoutCb ident r\<rparr>]"
    if "ivalue (infoEntries s r) \<noteq> lastSet (infoEntries s r)"
    by (simp add: setInfoStateIfChanged_changed(1) [OF that] persistedBy_def split: option.splits)
  have cb: "infoTimeout ident r s
     = setInfoStateIfChanged ident r False
         (updInfoEntry r (\<lambda>e. e\<lparr>timer := None\<rparr>) (log Silly (MsgTimeoutFor ident) s))"
    by (simp add: infoTimeout_def Let_def)
  have time: "now (fire pI env \<lparr>handle = h, due = d, cb = InfoTimeoutCb ident r\<rparr> s) = max (now s) d"
    using core_fields(15) [OF core_infoTimeout] by (simp add: fire_def runCallback_def)
  have armed: "persisted i (trace (incInfoState ident dI dV s)) = persisted i (trace s) \<and>
      timers (incInfoState ident dI dV s) = timers s"
    if "map_of (info s) ident = Some r \<and> timer (infoEntries s r) \<noteq> None"
    using that incInfoState_armed(1,2) [where s = s and ident = ident and r = r] by auto
  have shut: "h \<notin> handle ` set (timers (flushInfoStates s)) \<and>
      lastSet (infoEntries (flushInfoStates s) r) = ivalue (infoEntries s r) \<and>
      ivalue (infoEntries (flushInfoStates s) r) = ivalue (infoEntries s r) \<and>
      (distinct (map snd (info s)) \<and> ivalue (infoEntries s r) \<noteq> lastSet (infoEntries s r) \<longrightarrow>
         SetState key (ivalue (infoEntries s r)) \<in> set (trace (flushInfoStates s)))"
    if "(key, r) \<in> set (info s) \<and> timer (infoEntries s r) = Some h"
    using that flush_loop_armed [of key r "info s" s h] flush_loop_stable [of "info s" s r]
      flush_loop_writes [of key r "info s" s]
    by (simp add: flushInfoStates_def)
  show ?thesis
    using setInfoStateIfChanged_same [of s r ident sd] changed cb time armed shut
      infoTimeout_flushes [where ident = ident and r = r and s = s]
      incInfoState_recorded [where s = s and ident = ident and r = r and d = dI and v = dV]
      counter_scenario
    by (intro conjI impI) blast+
qed


text \<open>The counter of received messages after two increments at the same time.\<close>

definition twiceReceived :: Loxone where
  "twiceReceived = received (received counterStart)"

lemma twiceReceived_facts:
  "ivalue (infoEntries twiceReceived 1) = Some 2"
  "lastSet (infoEntries twiceReceived 1) = Some 1"
  "timer (infoEntries twiceReceived 1) = Some 0"
  "ivalue (infoEntries twiceReceived 2) = None"
  "lastSet (infoEntries twiceReceived 2) = None"
  "info twiceReceived
     = [(''info.ackTimeouts'', 0), (''info.messagesReceived'', 1), (''info.messagesSent'', 2),
        (''info.stateChangesDelayed'', 3), (''info.stateChangesDiscarded'', 4),
        (''info.unknownEvents'', 5)]"
  "timers twiceReceived = [\<lparr>handle = 0, due = 30000, cb = InfoTimeoutCb ''info.messagesReceived'' 1\<rparr>]"
  "nextTimeout twiceReceived = 1"
  "now twiceReceived = 0"
  "persisted ''info.messagesReceived'' (trace twiceReceived) = [Some 1]"
  by (simp_all add: twiceReceived_def counter_defs)

theorem counters_are_persisted_once_per_window_witness:
  "persisted ''info.messagesReceived'' (trace (setInfoStateIfChanged ''info.messagesReceived'' 1 False twiceReceived))
     = [Some 1, Some 2]
   \<and> timers (setInfoStateIfChanged ''info.messagesReceived'' 1 False twiceReceived)
     = [\<lparr>handle = 0, due = 30000, cb = InfoTimeoutCb ''info.messagesReceived'' 1\<rparr>,
        \<lparr>handle = 1, due = 30000, cb = InfoTimeoutCb ''info.messagesReceived'' 1\<rparr>]
   \<and> setInfoStateIfChanged ''info.messagesSent'' 2 False twiceReceived = twiceReceived
   \<and> persisted ''info.messagesReceived'' (trace (incInfoState ''info.messagesReceived'' None None twiceReceived))
     = [Some 1]
   \<and> ivalue (infoEntries (incInfoState ''info.messagesReceived'' None None twiceReceived) 1) = Some 3
   \<and> 0 \<notin> handle ` set (timers (flushInfoStates twiceReceived))
   \<and> lastSet (infoEntries (flushInfoStates twiceReceived) 1) = Some 2
   \<and> SetState ''info.messagesReceived'' (Some 2) \<in> set (trace (flushInfoStates twiceReceived))
   \<and> writes (later (\<lambda>v. v) unreachable 60000 (incrementedAt40 (\<lambda>v. v) unreachable))
     = Some [Some 1, Some 2, Some 3]"
proof -
  have h1: "ivalue (infoEntries twiceReceived 1) \<noteq> lastSet (infoEntries twiceReceived 1)"
    "map_of (info twiceReceived) ''info.messagesReceived'' = Some 1"
    "timer (infoEntries twiceReceived 1) \<noteq> None"
    "(''info.messagesReceived'', 1) \<in> set (info twiceReceived)"
    "timer (infoEntries twiceReceived 1) = Some 0"
    "distinct (map snd (info twiceReceived))"
    using twiceReceived_facts by simp_all
  have h2: "ivalue (infoEntries twiceReceived 2) = lastSet (infoEntries twiceReceived 2)"
    by (simp add: twiceReceived_facts)
  note a = counters_are_persisted_once_per_window
             [where s = twiceReceived and r = 1 and ident = "''info.messagesReceived''"
                and i = "''info.messagesReceived''" and key = "''info.messagesReceived''"
                and dI = None and dV = None and h = 0 and pI = "\<lambda>v. v" and env = unreachable]
  note b = counters_are_persisted_once_per_window
             [where s = twiceReceived and r = 2 and ident = "''info.messagesSent''" and sd = False,
              THEN conjunct1, rule_format, OF h2]
  show ?thesis
    using a h1 b twiceReceived_facts by (simp add: Number_def)
qed

subsection \<open>The retry timer and the connection state over the life of the adapter\<close>

text \<open>The number of pending timers that will retry the connection.\<close>

definition retries :: "Loxone \<Rightarrow> nat" where
  "retries s = length (filter (\<lambda>t. cb t = ReconnectCb) (timers s))"

lemma retries_simps [simp]:
  "retries (emit e s) = retries s"
  "retries (log l m s) = retries s"
  "retries (updInfoEntry r f s) = retries s"
  "retries (updListenEntry r g s) = retries s"
  "retries (snd (setTimeout (AckTimeoutCb i r) d s)) = retries s"
  "retries (snd (setTimeout (InfoTimeoutCb i r) d s)) = retries s"
  "retries (snd (setTimeout ReconnectCb d s)) = Suc (retries s)"
  "retries (s\<lparr>currentStateValues := cs\<rparr>) = retries s"
  "retries (s\<lparr>eventsQueue := q\<rparr>) = retries s"
  "retries (s\<lparr>queueRunning := b\<rparr>) = retries s"
  "retries (s\<lparr>runQueue := b\<rparr>) = retries s"
  "retries (s\<lparr>reconnectTimer := rt\<rparr>) = retries s"
  "retries (s\<lparr>connectionInProgress := b\<rparr>) = retries s"
  "retries (s\<lparr>stateEventHandlers := hs\<rparr>) = retries s"
  "retries (s\<lparr>reportedUnsupportedStateChanges := us\<rparr>) = retries s"
  "retries (s\<lparr>socket := b\<rparr>) = retries s"
  "retries (setConnectionState b s) = retries s"
  by (simp_all add: retries_def setTimeout_def updInfoEntry_def updListenEntry_def
        setConnectionState_def emit_def)

lemma filter_filter_length: "length (filter P (filter Q ts)) \<le> length (filter P ts)"
  by (induction ts) (auto simp add: le_SucI)

lemma retries_clearTimeout: "retries s \<le> n \<Longrightarrow> retries (clearTimeout h s) \<le> n"
  using filter_filter_length [of "\<lambda>t. cb t = ReconnectCb" "\<lambda>t. handle t \<noteq> h" "timers s"]
  by (simp add: retries_def clearTimeout_def)

lemma retries_setInfoStateIfChanged:
  "retries s \<le> n \<Longrightarrow> retries (setInfoStateIfChanged ident r sd s) \<le> n"
  by (simp add: setInfoStateIfChanged_def Let_def case_prod_beta split: option.splits)

lemma retries_infoTimeout: "retries s \<le> n \<Longrightarrow> retries (infoTimeout ident r s) \<le> n"
  by (simp add: infoTimeout_def Let_def retries_setInfoStateIfChanged)

lemma retries_incInfoState: "retries s \<le> n \<Longrightarrow> retries (incInfoState ident d v s) \<le> n"
  by (simp add: incInfoState_def getInfoEntry_def Let_def retries_setInfoStateIfChanged
        split: option.splits)

lemma retries_ack:
  "retries s \<le> n \<Longrightarrow> retries (handleStateChange pI ident r v s) \<le> n"
  "retries s \<le> n \<Longrightarrow> retries (handleDelayedStateChange pI ident r s) \<le> n"
  "retries s \<le> n \<Longrightarrow> retries (checkStateForAck pI ident s) \<le> n"
  "retries s \<le> n \<Longrightarrow> retries (setStateAck pI ident v s) \<le> n"
proof (induction pI ident r v s and pI ident r s and pI ident s and pI ident v s
    rule: handleStateChange_handleDelayedStateChange_checkStateForAck_setStateAck.induct)
  case (1 pI ident r val0 s)
  then show ?case
    by (subst handleStateChange.simps) (simp add: Let_def case_prod_beta)
next
  case (2 pI ident r s)
  then show ?case
    by (subst handleDelayedStateChange.simps) (simp add: Let_def)
next
  case (3 pI ident s)
  then show ?case
    by (subst checkStateForAck.simps)
       (simp add: Let_def retries_clearTimeout split: option.splits)
next
  case (4 pI ident v s)
  then show ?case
    by (subst setStateAck.simps) (simp add: Let_def)
qed


text \<open>
  The calls on the socket and the writes of the connection state: the effects of the
  component that supervises the connection, as a part of the trace.
\<close>

definition isLinkEffect :: "Effect \<Rightarrow> bool" where
  "isLinkEffect e =
     (case e of
        SocketOpen \<Rightarrow> True
      | SocketSend p \<Rightarrow> True
      | SocketClose \<Rightarrow> True
      | SetConnection b \<Rightarrow> True
      | _ \<Rightarrow> False)"

definition linkEffects :: "Effect list \<Rightarrow> Effect list" where
  "linkEffects es = filter isLinkEffect es"

lemma linkEffects_simps [simp]:
  "linkEffects [] = []"
  "linkEffects (xs @ ys) = linkEffects xs @ linkEffects ys"
  "linkEffects (e # es) = (if isLinkEffect e then e # linkEffects es else linkEffects es)"
  by (simp_all add: linkEffects_def)

lemma isLinkEffect_simps [simp]:
  "\<not> isLinkEffect (Log l m)" "\<not> isLinkEffect (SetState i v)" "\<not> isLinkEffect (SetStateDetail i ds)"
  "\<not> isLinkEffect (SetStateAsync i sv)" "\<not> isLinkEffect (ListenerCall r old new)"
  "\<not> isLinkEffect UnloadCallback"
  "isLinkEffect SocketOpen" "isLinkEffect (SocketSend p)" "isLinkEffect SocketClose"
  "isLinkEffect (SetConnection b)"
  by (simp_all add: isLinkEffect_def)

lemma linkEffects_setInfoStateIfChanged [simp]:
  "linkEffects (trace (setInfoStateIfChanged ident r sd s)) = linkEffects (trace s)"
  by (simp add: setInfoStateIfChanged_def Let_def case_prod_beta split: option.splits)

lemma linkEffects_infoTimeout [simp]:
  "linkEffects (trace (infoTimeout ident r s)) = linkEffects (trace s)"
  by (simp add: infoTimeout_def Let_def)

lemma linkEffects_incInfoState [simp]:
  "linkEffects (trace (incInfoState ident d v s)) = linkEffects (trace s)"
  by (simp add: incInfoState_def getInfoEntry_def Let_def split: option.splits)

lemma linkEffects_ack [simp]:
  "linkEffects (trace (handleStateChange pI ident r v s)) = linkEffects (trace s)"
  "linkEffects (trace (handleDelayedStateChange pI ident r s)) = linkEffects (trace s)"
  "linkEffects (trace (checkStateForAck pI ident s)) = linkEffects (trace s)"
  "linkEffects (trace (setStateAck pI ident v s)) = linkEffects (trace s)"
proof (induction pI ident r v s and pI ident r s and pI ident s and pI ident v s
    rule: handleStateChange_handleDelayedStateChange_checkStateForAck_setStateAck.induct)
  case (1 pI ident r val0 s)
  then show ?case
    by (subst handleStateChange.simps) (simp add: Let_def case_prod_beta)
next
  case (2 pI ident r s)
  then show ?case
    by (subst handleDelayedStateChange.simps) (simp add: Let_def)
next
  case (3 pI ident s)
  then show ?case
    by (subst checkStateForAck.simps) (simp add: Let_def split: option.splits)
next
  case (4 pI ident v s)
  then show ?case
    by (subst setStateAck.simps) (simp add: Let_def)
qed

text \<open>
  \<open>calm s s'\<close>: from \<open>s\<close> to \<open>s'\<close> nothing has changed that concerns the connection.
  The stored handle of the retry timer, the three flags of the connection and of the
  queue, the socket and the clock are the same, no effect of the supervisor was
  added, and no retry timer was added.
\<close>

definition calm :: "Loxone \<Rightarrow> Loxone \<Rightarrow> bool" where
  "calm s s' =
     (reconnectTimer s' = reconnectTimer s \<and> connectionInProgress s' = connectionInProgress s \<and>
      lxConnected s' = lxConnected s \<and> socket s' = socket s \<and> runQueue s' = runQueue s \<and>
      now s' = now s \<and> linkEffects (trace s') = linkEffects (trace s) \<and>
      retries s' \<le> retries s)"

lemma calm_refl [simp]: "calm s s"
  by (simp add: calm_def)

lemma calm_trans: "calm s s1 \<Longrightarrow> calm s1 s2 \<Longrightarrow> calm s s2"
  by (simp add: calm_def)

lemma calmI:
  "core s' = core s \<Longrightarrow> linkEffects (trace s') = linkEffects (trace s) \<Longrightarrow>
   retries s' \<le> retries s \<Longrightarrow> calm s s'"
  using core_fields(2,7,10,11,12,15) [of s' s] by (simp add: calm_def)

lemma calm_basic [simp]:
  "calm s (log l m s)"
  "calm s (incInfoState ident d v s)"
  "calm s (setStateAck pI ident sv s)"
  "calm s (handleStateChange pI ident r sv s)"
  "calm s (handleDelayedStateChange pI ident r s)"
  "calm s (infoTimeout ident r s)"
  "calm s (setInfoStateIfChanged ident r sd s)"
  by (rule calmI; simp add: retries_incInfoState retries_ack retries_infoTimeout
        retries_setInfoStateIfChanged)+

lemma calm_queue_fields [simp]:
  "calm s (s\<lparr>eventsQueue := q\<rparr>)"
  "calm s (s\<lparr>queueRunning := b\<rparr>)"
  by (simp_all add: calm_def)


lemma calm_runHandler [simp]: "calm s (runHandler pI u steps s)"
proof (induction pI u steps s rule: runHandler.induct)
  case (1 pI u s)
  then show ?case by simp
next
  case (2 pI u ident v steps s)
  have "calm s (setStateAck pI ident v s)" by simp
  from calm_trans [OF this 2] show ?case by simp
next
  case (3 pI u steps s)
  then show ?case by simp
qed

lemma calm_foldl:
  assumes "\<And>x t. calm t (f t x)"
  shows "calm s (foldl f s xs)"
proof (induction xs arbitrary: s)
  case Nil
  then show ?case by simp
next
  case (Cons x xs)
  from calm_trans [OF assms [of s x] Cons [of "f s x"]] show ?case by simp
qed

lemma calm_handleEvent [simp]: "calm s (handleEvent pI e s)"
proof (cases "stateEventHandlers s (uuid e)")
  case None
  have "calm s (log Debug (MsgUnknownEvent (uuid e) (evt e)) s)" by simp
  from calm_trans [OF this calm_basic(2)] show ?thesis
    by (simp add: handleEvent_def None)
next
  case (Some hs)
  then show ?thesis
    by (simp add: handleEvent_def calm_foldl)
qed

lemma calm_foldl_in:
  assumes "\<And>x t. x \<in> set xs \<Longrightarrow> calm t (f t x)"
  shows "calm s (foldl f s xs)"
  using assms
proof (induction xs arbitrary: s)
  case Nil
  then show ?case by simp
next
  case (Cons x xs)
  have 1: "calm s (f s x)" using Cons.prems by simp
  have 2: "calm (f s x) (foldl f (f s x) xs)" using Cons.IH Cons.prems by simp
  from calm_trans [OF 1 2] show ?case by simp
qed

lemma calm_queue:
  "calm s (handleEventQueue pI arr s)"
  "calm s (drain pI arr s)"
  "calm s (handleAnyEvent pI arr e s)"
proof (induction pI arr s and pI arr s and pI arr e s rule: handleEventQueue_drain_handleAnyEvent.induct)
  case (1 pI arrivals s)
  show ?case
  proof (cases "runQueue s \<and> \<not> queueRunning s")
    case True
    let ?s1 = "s\<lparr>queueRunning := True\<rparr>"
    let ?s2 = "log Silly (MsgProcessing (length (eventsQueue ?s1))) ?s1"
    have a: "calm s ?s2" by (rule calm_trans [of s ?s1]) simp_all
    have b: "calm ?s2 (drain pI arrivals ?s2)" using 1 True by simp
    have c: "calm (drain pI arrivals ?s2) (log Silly MsgQueueDone ((drain pI arrivals ?s2)\<lparr>queueRunning := False\<rparr>))"
      by (rule calm_trans [of _ "(drain pI arrivals ?s2)\<lparr>queueRunning := False\<rparr>"]) simp_all
    have "handleEventQueue pI arrivals s = log Silly MsgQueueDone ((drain pI arrivals ?s2)\<lparr>queueRunning := False\<rparr>)"
      using True by (subst handleEventQueue.simps) (simp add: Let_def)
    then show ?thesis
      using calm_trans [OF calm_trans [OF a b] c] by simp
  next
    case False
    then show ?thesis by (subst handleEventQueue.simps) auto
  qed
next
  case (2 pI arrivals s)
  show ?case
  proof (cases "eventsQueue s")
    case Nil
    then show ?thesis by (subst drain.simps) simp
  next
    case (Cons e q)
    let ?s1 = "s\<lparr>eventsQueue := q\<rparr>"
    let ?s2 = "log Silly (MsgDequeued (uuid e)) ?s1"
    let ?s3 = "handleEvent pI e ?s2"
    have a: "calm s ?s3"
      by (rule calm_trans [of s ?s2], rule calm_trans [of s ?s1]) simp_all
    show ?thesis
    proof (cases arrivals)
      case Nil
      have "calm ?s3 (drain pI [] ?s3)" using 2(1) [OF Cons refl refl refl Nil] .
      from calm_trans [OF a this] show ?thesis
        by (subst drain.simps) (simp add: Cons Nil Let_def)
    next
      case (Cons batch later')
      let ?s4 = "foldl (\<lambda>s' a. handleAnyEvent pI later' a s') ?s3 batch"
      have b: "calm ?s3 ?s4"
        using 2(2) [OF \<open>eventsQueue s = e # q\<close> refl refl refl Cons]
        by (intro calm_foldl_in) simp
      have c: "calm ?s4 (drain pI later' ?s4)"
        using 2(3) [OF \<open>eventsQueue s = e # q\<close> refl refl refl Cons] .
      from calm_trans [OF calm_trans [OF a b] c] show ?thesis
        by (subst drain.simps) (simp add: \<open>eventsQueue s = e # q\<close> Cons Let_def)
    qed
  qed
next
  case (3 pI arrivals e s)
  let ?s1 = "log Silly (MsgReceived (uuid e) (evt e)) s"
  let ?s2 = "?s1\<lparr>eventsQueue := eventsQueue ?s1 @ [e]\<rparr>"
  have a: "calm s ?s2" by (rule calm_trans [of s ?s1]) simp_all
  have b: "calm ?s2 (handleEventQueue pI arrivals ?s2)" using 3 by simp
  from calm_trans [OF a b] show ?case
    by (subst handleAnyEvent.simps) (simp add: Let_def)
qed


lemma calm_more [simp]:
  "calm s (emit (ListenerCall r old new) s)"
  "calm s (updListenEntry r g s)"
  "calm s (s\<lparr>reportedUnsupportedStateChanges := us\<rparr>)"
  "calm s (s\<lparr>stateEventHandlers := hs\<rparr>)"
  "calm s (clearTimeout h s)"
  by (simp_all add: calm_def retries_clearTimeout)

lemma calm_onStateChange [simp]: "calm s (onStateChange pI ident st s)"
proof -
  have 1: "calm s (incInfoState i d v (log l m s))" for i d v l m
    by (rule calm_trans [of s "log l m s"]) simp_all
  have 5: "calm s (log l m (log l' m' s))" for l m l' m'
    by (rule calm_trans [of s "log l' m' s"]) simp_all
  have 6: "calm s (incInfoState i d v (log l m (log l' m' s)))" for i d v l m l' m'
    by (rule calm_trans [OF 5 [of l m l' m']]) simp
  have 2: "calm s (updListenEntry r g (incInfoState i d v (log l m (log l' m' s))))" for r g i d v l m l' m'
    by (rule calm_trans [OF 6 [of i d v l m l' m']]) simp
  have 3: "calm s (handleStateChange pI i r v (log l m s))" for i r v l m
    by (rule calm_trans [of s "log l m s"]) simp_all
  have 4: "calm s ((log l m (log l' m' s))\<lparr>reportedUnsupportedStateChanges := us\<rparr>)" for l m l' m' us
    by (rule calm_trans [OF 5 [of l m l' m']]) simp
  show ?thesis
    by (cases st) (auto simp add: onStateChange_def Let_def 1 2 3 4 5 6 split: option.splits)
qed

lemma calm_ackTimeout [simp]: "calm s (ackTimeout pI ident r s)"
proof -
  let ?s1 = "log Warn (MsgTimeoutForAck ident) s"
  let ?s2 = "incInfoState ''info.ackTimeouts'' (Some ident) None ?s1"
  let ?s3 = "updListenEntry r (\<lambda>e. e\<lparr>ackTimer := None\<rparr>) ?s2"
  have "calm s ?s1" by simp
  moreover have "calm ?s1 ?s2" by simp
  moreover have "calm ?s2 ?s3" by simp
  moreover have "calm ?s3 (handleDelayedStateChange pI ident r ?s3)" by simp
  ultimately show ?thesis
    unfolding ackTimeout_def Let_def by (blast intro: calm_trans)
qed

lemma calm_flushInfoStates_loop: "calm s (flushInfoStates_loop xs s)"
proof (induction xs arbitrary: s)
  case Nil
  then show ?case by simp
next
  case (Cons kr xs)
  obtain key r where kr: "kr = (key, r)" by (cases kr)
  have "calm s (flushOne key r s)"
  proof (cases "timer (infoEntries s r)")
    case None
    then show ?thesis by (simp add: flushOne_def)
  next
    case (Some h)
    have "calm s (clearTimeout h s)" by simp
    from calm_trans [OF this calm_basic(7)] show ?thesis
      by (simp add: flushOne_def Some)
  qed
  from calm_trans [OF this Cons] show ?case
    unfolding kr flushInfoStates_loop_Cons .
qed

lemma calm_applyBinding [simp]: "calm s (applyBinding b s)"
  by (cases b)
     (simp_all add: calm_def addStateChangeListener_def addStateEventHandler_def
        removeStateEventHandler_def retries_def Let_def case_prod_beta split: option.splits)

lemma loadStructureFileAsync_calm:
  "loadStructureFileAsync pI arr data s = Inl s' \<Longrightarrow> loadThrows data \<and> calm s s'"
  "loadStructureFileAsync pI arr data s = Inr s' \<Longrightarrow>
     \<not> loadThrows data \<and> runQueue s' \<and> calm (s\<lparr>runQueue := True\<rparr>) s'"
proof -
  let ?s1 = "s\<lparr>stateEventHandlers := Map.empty\<rparr>"
  let ?s2 = "foldl (\<lambda>s' b. applyBinding b s') ?s1 (bindings data)"
  have a: "calm s ?s2"
    by (rule calm_trans [of s ?s1], simp, rule calm_foldl) simp
  show "loadStructureFileAsync pI arr data s = Inl s' \<Longrightarrow> loadThrows data \<and> calm s s'"
    using a by (auto simp add: loadStructureFileAsync_def Let_def split: if_splits)
  show "loadStructureFileAsync pI arr data s = Inr s' \<Longrightarrow>
     \<not> loadThrows data \<and> runQueue s' \<and> calm (s\<lparr>runQueue := True\<rparr>) s'"
  proof -
    assume r: "loadStructureFileAsync pI arr data s = Inr s'"
    then have nt: "\<not> loadThrows data" and s': "s' = handleEventQueue pI arr (?s2\<lparr>runQueue := True\<rparr>)"
      by (auto simp add: loadStructureFileAsync_def Let_def split: if_splits)
    have b: "calm (s\<lparr>runQueue := True\<rparr>) (?s2\<lparr>runQueue := True\<rparr>)"
      using a by (simp add: calm_def)
    have c: "calm (?s2\<lparr>runQueue := True\<rparr>) s'"
      unfolding s' by (rule calm_queue(1))
    from calm_trans [OF b c] have d: "calm (s\<lparr>runQueue := True\<rparr>) s'" .
    then have "runQueue s'" by (simp add: calm_def)
    with nt d show ?thesis by simp
  qed
qed


text \<open>
  A connection attempt succeeds when the socket exists and every step succeeds. The
  calls on the socket that the three steps of an attempt make are the following,
  each step being made only if the one before succeeded.
\<close>

definition succeeds :: "ConnectEnv \<Rightarrow> Loxone \<Rightarrow> bool" where
  "succeeds env s =
     (socket s \<and> openOk env \<and>
      (case structureFile env of None \<Rightarrow> False | Some file \<Rightarrow> \<not> loadThrows file) \<and>
      enableOk env)"

definition attemptCalls :: "ConnectEnv \<Rightarrow> Loxone \<Rightarrow> Effect list" where
  "attemptCalls env s =
     (if \<not> socket s then []
      else SocketOpen #
        (if \<not> openOk env then []
         else SocketSend ''data/LoxAPP3.json'' #
           (case structureFile env of
              None \<Rightarrow> []
            | Some file \<Rightarrow>
                if loadThrows file then [] else [SocketSend ''jdev/sps/enablebinstatusupdate''])))"

text \<open>
  \<open>attempting s s' es\<close>: \<open>s'\<close> is a state during a connection attempt that started
  in \<open>s\<close>; the attempt has made the calls \<open>es\<close> so far.
\<close>

definition attempting :: "Loxone \<Rightarrow> Loxone \<Rightarrow> Effect list \<Rightarrow> bool" where
  "attempting s s' es =
     (connectionInProgress s' \<and> lxConnected s' = lxConnected s \<and>
      reconnectTimer s' = reconnectTimer s \<and> socket s' = socket s \<and> now s' = now s \<and>
      retries s' \<le> retries s \<and> linkEffects (trace s') = linkEffects (trace s) @ es)"

lemma attempting_calm: "attempting s s1 es \<Longrightarrow> calm s1 s2 \<Longrightarrow> attempting s s2 es"
  by (simp add: attempting_def calm_def)

lemma connectOpen_attempting:
  "fst (connectOpen env s) = (socket s \<and> openOk env)"
  "attempting s (snd (connectOpen env s)) (if socket s then [SocketOpen] else [])"
  "runQueue (snd (connectOpen env s)) = runQueue s"
  by (simp_all add: connectOpen_def socketCall_def attempting_def Let_def retries_def)

lemma loadStructureFile_attempting:
  assumes "attempting s0 s es"
  shows "fst (loadStructureFile pI env s)
           = (socket s \<and> (case structureFile env of None \<Rightarrow> False | Some file \<Rightarrow> \<not> loadThrows file))"
    and "attempting s0 (snd (loadStructureFile pI env s))
           (es @ (if socket s then [SocketSend ''data/LoxAPP3.json''] else []))"
    and "fst (loadStructureFile pI env s) \<Longrightarrow> runQueue (snd (loadStructureFile pI env s))"
proof -
  let ?send = "emit (SocketSend ''data/LoxAPP3.json'') s"
  have all: "fst (loadStructureFile pI env s)
           = (socket s \<and> (case structureFile env of None \<Rightarrow> False | Some file \<Rightarrow> \<not> loadThrows file))
      \<and> attempting s0 (snd (loadStructureFile pI env s))
           (es @ (if socket s then [SocketSend ''data/LoxAPP3.json''] else []))
      \<and> (fst (loadStructureFile pI env s) \<longrightarrow> runQueue (snd (loadStructureFile pI env s)))"
  proof (cases "socket s")
    case False
    then show ?thesis
      using assms by (simp add: loadStructureFile_def socketCall_def attempting_def)
  next
    case True
    have sent: "attempting s0 ?send (es @ [SocketSend ''data/LoxAPP3.json''])"
      using assms by (simp add: attempting_def retries_def emit_def)
    show ?thesis
    proof (cases "structureFile env")
      case None
      then show ?thesis
        using True sent by (simp add: loadStructureFile_def socketCall_def attempting_def)
    next
      case (Some sf)
      let ?s3 = "log Info MsgGotStructureFile (log Silly MsgStructureFile ?send)"
      have s3: "attempting s0 ?s3 (es @ [SocketSend ''data/LoxAPP3.json''])"
        using sent by (simp add: attempting_def)
      show ?thesis
      proof (cases "loadStructureFileAsync pI (arrivals env) sf ?s3")
        case (Inl s4)
        from loadStructureFileAsync_calm(1) [OF Inl]
        have "loadThrows sf" "attempting s0 s4 (es @ [SocketSend ''data/LoxAPP3.json''])"
          using attempting_calm [OF s3] by simp_all
        then show ?thesis
          using True Some Inl
          by (simp add: loadStructureFile_def socketCall_def Let_def attempting_def)
      next
        case (Inr s4)
        from loadStructureFileAsync_calm(2) [OF Inr]
        have f: "\<not> loadThrows sf" "runQueue s4" "calm (?s3\<lparr>runQueue := True\<rparr>) s4"
          by simp_all
        have "attempting s0 (?s3\<lparr>runQueue := True\<rparr>) (es @ [SocketSend ''data/LoxAPP3.json''])"
          using s3 by (simp add: attempting_def)
        from attempting_calm [OF this f(3)]
        have "attempting s0 s4 (es @ [SocketSend ''data/LoxAPP3.json''])" .
        then show ?thesis
          using True Some Inr f(1,2)
          by (simp add: loadStructureFile_def socketCall_def Let_def attempting_def)
      qed
    qed
  qed
  from all show "fst (loadStructureFile pI env s)
           = (socket s \<and> (case structureFile env of None \<Rightarrow> False | Some file \<Rightarrow> \<not> loadThrows file))"
    by simp
  from all show "attempting s0 (snd (loadStructureFile pI env s))
           (es @ (if socket s then [SocketSend ''data/LoxAPP3.json''] else []))"
    by simp
  from all show "fst (loadStructureFile pI env s) \<Longrightarrow> runQueue (snd (loadStructureFile pI env s))"
    by simp
qed


lemma connect_steps:
  "fst (connectEnable env (connectLoad pI env (connectOpen env s))) = succeeds env s"
  "attempting s (snd (connectEnable env (connectLoad pI env (connectOpen env s)))) (attemptCalls env s)"
  "succeeds env s \<Longrightarrow> runQueue (snd (connectEnable env (connectLoad pI env (connectOpen env s))))"
  "attempting s (snd (connectOpen env s)) (if socket s then [SocketOpen] else [])"
  "attempting s (snd (connectLoad pI env (connectOpen env s)))
     ((if socket s then [SocketOpen] else [])
      @ (if socket s \<and> openOk env then [SocketSend ''data/LoxAPP3.json''] else []))"
proof -
  obtain ok1 s1 where o: "connectOpen env s = (ok1, s1)" by (cases "connectOpen env s")
  have o1: "ok1 = (socket s \<and> openOk env)" "attempting s s1 (if socket s then [SocketOpen] else [])"
    using connectOpen_attempting(1,2) [where env = env and s = s] by (simp_all add: o)
  have sock1: "socket s1 = socket s" using o1(2) by (simp add: attempting_def)
  obtain ok2 s2 where l: "connectLoad pI env (ok1, s1) = (ok2, s2)"
    by (cases "connectLoad pI env (ok1, s1)")
  note ls = loadStructureFile_attempting [OF o1(2), where pI = pI and env = env]
  have l2: "ok2 = (ok1 \<and> (case structureFile env of None \<Rightarrow> False | Some f \<Rightarrow> \<not> loadThrows f))"
    "attempting s s2 ((if socket s then [SocketOpen] else [])
       @ (if ok1 then [SocketSend ''data/LoxAPP3.json''] else []))"
    "ok2 \<Longrightarrow> runQueue s2"
    using l ls o1 sock1 by (auto simp add: connectLoad_def split: if_splits)
  have sock2: "socket s2 = socket s" using l2(2) by (simp add: attempting_def)
  obtain ok3 s3 where e: "connectEnable env (ok2, s2) = (ok3, s3)"
    by (cases "connectEnable env (ok2, s2)")
  have e3: "ok3 = (ok2 \<and> enableOk env)"
    "attempting s s3 ((if socket s then [SocketOpen] else [])
       @ (if ok1 then [SocketSend ''data/LoxAPP3.json''] else [])
       @ (if ok2 then [SocketSend ''jdev/sps/enablebinstatusupdate''] else []))"
    "ok3 \<Longrightarrow> runQueue s3"
    using e l2 o1(1) sock2
    by (auto simp add: connectEnable_def socketCall_def attempting_def retries_def emit_def
          split: if_splits)
  have calls: "(if socket s then [SocketOpen] else [])
       @ (if ok1 then [SocketSend ''data/LoxAPP3.json''] else [])
       @ (if ok2 then [SocketSend ''jdev/sps/enablebinstatusupdate''] else []) = attemptCalls env s"
    using o1(1) l2(1) by (auto simp add: attemptCalls_def split: option.splits)
  show "fst (connectEnable env (connectLoad pI env (connectOpen env s))) = succeeds env s"
    unfolding o l e fst_conv using o1(1) l2(1) e3(1) by (auto simp add: succeeds_def)
  show "attempting s (snd (connectEnable env (connectLoad pI env (connectOpen env s)))) (attemptCalls env s)"
    unfolding o l e snd_conv using e3(2) calls by simp
  show "succeeds env s \<Longrightarrow> runQueue (snd (connectEnable env (connectLoad pI env (connectOpen env s))))"
    unfolding o l e snd_conv using o1(1) l2(1) e3(1,3) by (auto simp add: succeeds_def)
  show "attempting s (snd (connectOpen env s)) (if socket s then [SocketOpen] else [])"
    unfolding o snd_conv using o1(2) by simp
  show "attempting s (snd (connectLoad pI env (connectOpen env s)))
     ((if socket s then [SocketOpen] else [])
      @ (if socket s \<and> openOk env then [SocketSend ''data/LoxAPP3.json''] else []))"
    unfolding o l snd_conv using l2(2) o1(1) by simp
qed

lemma connect_success:
  assumes "\<not> connectionInProgress s" and "succeeds env s"
  shows "lxConnected (connect pI env s)" and "runQueue (connect pI env s)"
    and "\<not> connectionInProgress (connect pI env s)"
    and "reconnectTimer (connect pI env s) = reconnectTimer s"
    and "retries (connect pI env s) \<le> retries s"
    and "linkEffects (trace (connect pI env s))
           = linkEffects (trace s) @ attemptCalls env s @ [SetConnection True]"
proof -
  obtain ok s3 where p: "connectEnable env (connectLoad pI env (connectOpen env s)) = (ok, s3)"
    by (cases "connectEnable env (connectLoad pI env (connectOpen env s))")
  have f: "ok" "attempting s s3 (attemptCalls env s)" "runQueue s3"
    using connect_steps(1,2,3) [where env = env and pI = pI and s = s] assms(2) by (simp_all add: p)
  have c: "connect pI env s = setConnectionState True (s3\<lparr>connectionInProgress := False\<rparr>)"
    using assms(1) f(1) by (simp add: connect_def connectFinish_def p Let_def)
  show "lxConnected (connect pI env s)" "runQueue (connect pI env s)"
    "\<not> connectionInProgress (connect pI env s)"
    "reconnectTimer (connect pI env s) = reconnectTimer s"
    "retries (connect pI env s) \<le> retries s"
    "linkEffects (trace (connect pI env s))
           = linkEffects (trace s) @ attemptCalls env s @ [SetConnection True]"
    using f by (simp_all add: c attempting_def)
qed

lemma connect_failure:
  assumes "\<not> connectionInProgress s" and "\<not> succeeds env s"
  shows "lxConnected (connect pI env s) = lxConnected s"
    and "\<not> connectionInProgress (connect pI env s)"
    and "reconnectTimer (connect pI env s) \<noteq> None"
    and "reconnectTimer s \<noteq> None \<Longrightarrow>
           reconnectTimer (connect pI env s) = reconnectTimer s \<and> retries (connect pI env s) \<le> retries s"
    and "reconnectTimer s = None \<Longrightarrow>
           retries (connect pI env s) \<le> Suc (retries s) \<and>
           (\<exists>h. reconnectTimer (connect pI env s) = Some h \<and>
                \<lparr>handle = h, due = now s + 5000, cb = ReconnectCb\<rparr> \<in> set (timers (connect pI env s)))"
    and "linkEffects (trace (connect pI env s))
           = linkEffects (trace s) @ attemptCalls env s @ (if socket s then [SocketClose] else [])"
proof -
  obtain ok s3 where p: "connectEnable env (connectLoad pI env (connectOpen env s)) = (ok, s3)"
    by (cases "connectEnable env (connectLoad pI env (connectOpen env s))")
  have f: "\<not> ok" "attempting s s3 (attemptCalls env s)"
    using connect_steps(1,2) [where env = env and pI = pI and s = s] assms(2) by (simp_all add: p)
  let ?s4 = "log Debug MsgConnectionFailed (s3\<lparr>connectionInProgress := False\<rparr>)"
  let ?s5 = "if socket ?s4 then emit SocketClose ?s4 else ?s4"
  have c: "connect pI env s = reconnect ?s5"
    using assms(1) f(1) by (simp add: connect_def connectFinish_def p Let_def)
  have s5: "\<not> connectionInProgress ?s5" "lxConnected ?s5 = lxConnected s"
    "reconnectTimer ?s5 = reconnectTimer s" "now ?s5 = now s" "retries ?s5 \<le> retries s"
    "linkEffects (trace ?s5) = linkEffects (trace s) @ attemptCalls env s @ (if socket s then [SocketClose] else [])"
    using f(2) by (simp_all add: attempting_def)
  show "lxConnected (connect pI env s) = lxConnected s"
    "\<not> connectionInProgress (connect pI env s)"
    "reconnectTimer (connect pI env s) \<noteq> None"
    "linkEffects (trace (connect pI env s))
           = linkEffects (trace s) @ attemptCalls env s @ (if socket s then [SocketClose] else [])"
    unfolding c using s5
    by (simp_all add: reconnect_def case_prod_beta Let_def)
  show "reconnectTimer s \<noteq> None \<Longrightarrow>
           reconnectTimer (connect pI env s) = reconnectTimer s \<and> retries (connect pI env s) \<le> retries s"
    unfolding c using s5 by (simp add: reconnect_def)
  show "reconnectTimer s = None \<Longrightarrow>
           retries (connect pI env s) \<le> Suc (retries s) \<and>
           (\<exists>h. reconnectTimer (connect pI env s) = Some h \<and>
                \<lparr>handle = h, due = now s + 5000, cb = ReconnectCb\<rparr> \<in> set (timers (connect pI env s)))"
    unfolding c using s5
    by (simp add: reconnect_def case_prod_beta Let_def reconnectTimeoutMs_def split: if_splits)
qed

text \<open>
  What reaches the adapter after \<^verbatim>\<open>onReady\<close>: a change of a subscribed state, a message
  with events from the transport, the close of the transport, a pending timer that
  fires (given by its handle, with what the surroundings do if it starts a connection
  attempt) and the unload. \<open>react\<close> calls the method that the host or the transport
  calls, \<open>runs\<close> does so for a sequence of them. A timer may fire in any order and at
  any time; the timers that the host really fires are among these.
\<close>

datatype Stimulus =
    StateChanged string "State option"
  | EventsReceived "LoxoneEvent list list" "LoxoneEvent list" BinaryEventType
  | ConnectionClosed SupportCode
  | TimerDue nat ConnectEnv
  | Unloaded

fun react :: "(StateValue \<Rightarrow> StateValue) \<Rightarrow> Stimulus \<Rightarrow> Loxone \<Rightarrow> Loxone" where
  "react pI (StateChanged ident st) s = onStateChange pI ident st s"
| "react pI (EventsReceived arr events ty) s = socketOnEventReceived pI arr events ty s"
| "react pI (ConnectionClosed code) s = socketOnConnectionClosed code s"
| "react pI (TimerDue h env) s =
     (case find (\<lambda>t. handle t = h) (timers s) of
        None \<Rightarrow> s
      | Some t \<Rightarrow> fire pI env t s)"
| "react pI Unloaded s = onUnload s"

definition runs :: "(StateValue \<Rightarrow> StateValue) \<Rightarrow> Stimulus list \<Rightarrow> Loxone \<Rightarrow> Loxone" where
  "runs pI stimuli s = foldl (\<lambda>s' st. react pI st s') s stimuli"

text \<open>
  \<open>connectedLast\<close>: the last thing the supervisor did was to set the connection state
  to true. \<open>settled\<close>: no attempt is in progress, at most one retry timer is pending
  and none if no handle is stored, and while the connection state is true no handle is
  stored and, as long as the adapter has its socket, nothing was done on the socket
  since the state was set.
\<close>

definition connectedLast :: "Effect list \<Rightarrow> bool" where
  "connectedLast es = (linkEffects es \<noteq> [] \<and> last (linkEffects es) = SetConnection True)"

definition settled :: "Loxone \<Rightarrow> bool" where
  "settled s =
     (\<not> connectionInProgress s \<and>
      retries s \<le> 1 \<and> (reconnectTimer s = None \<longrightarrow> retries s = 0) \<and>
      (lxConnected s \<longrightarrow> reconnectTimer s = None \<and> (socket s \<longrightarrow> connectedLast (trace s))))"

lemma settled_calm: "calm s s' \<Longrightarrow> settled s \<Longrightarrow> settled s'"
  by (auto simp add: calm_def settled_def connectedLast_def split: if_splits)

lemma calm_socketOnEventReceived [simp]: "calm s (socketOnEventReceived pI arr events ty s)"
proof -
  let ?s1 = "log Silly MsgSocketEventReceived s"
  let ?s2 = "incInfoState ''info.messagesReceived'' None None ?s1"
  have a: "calm s ?s2" by (rule calm_trans [of s ?s1]) simp_all
  have b: "calm ?s2 (foldl (\<lambda>s' e. handleAnyEvent pI arr e s') ?s2 events)"
    by (rule calm_foldl) (simp add: calm_queue(3))
  show ?thesis
    using a calm_trans [OF a b]
    by (cases ty) (simp_all add: socketOnEventReceived_def Let_def)
qed

lemma calm_flushInfoStates [simp]: "calm s (flushInfoStates s)"
  by (simp add: flushInfoStates_def calm_flushInfoStates_loop)

lemma reconnect_fields [simp]:
  "lxConnected (reconnect s) = lxConnected s"
  "connectionInProgress (reconnect s) = connectionInProgress s"
  "socket (reconnect s) = socket s"
  "runQueue (reconnect s) = runQueue s"
  "eventsQueue (reconnect s) = eventsQueue s"
  "now (reconnect s) = now s"
  "linkEffects (trace (reconnect s)) = linkEffects (trace s)"
  by (simp_all add: reconnect_def case_prod_beta setTimeout_def log_def emit_def)

lemma reconnect_retries:
  "\<not> connectionInProgress s \<Longrightarrow> reconnectTimer (reconnect s) \<noteq> None"
  "\<not> connectionInProgress s \<Longrightarrow>
     retries (reconnect s) = (if reconnectTimer s = None then Suc (retries s) else retries s)"
  "reconnectTimer s \<noteq> None \<or> connectionInProgress s \<Longrightarrow>
     reconnectTimer (reconnect s) = reconnectTimer s \<and> timers (reconnect s) = timers s"
  by (auto simp add: reconnect_def case_prod_beta setTimeout_def retries_def)

lemma settled_reconnect: "settled s \<Longrightarrow> \<not> lxConnected s \<Longrightarrow> settled (reconnect s)"
  by (auto simp add: settled_def reconnect_retries)

lemma settled_onUnload: "settled s \<Longrightarrow> settled (onUnload s)"
proof -
  assume s: "settled s"
  let ?s1 = "if socket s then (emit SocketClose s)\<lparr>socket := False\<rparr> else s"
  have "settled ?s1" using s by (auto simp add: settled_def)
  hence "settled (emit UnloadCallback ?s1)"
    by (auto simp add: settled_def connectedLast_def)
  from settled_calm [OF calm_flushInfoStates this] show ?thesis
    by (simp add: onUnload_def Let_def)
qed

lemma settled_socketOnConnectionClosed: "settled s \<Longrightarrow> settled (socketOnConnectionClosed code s)"
proof -
  assume s: "settled s"
  let ?s2 = "setConnectionState False (log Info (MsgSocketClosed code) s)"
  let ?s3 = "?s2\<lparr>runQueue := False\<rparr>"
  let ?s4 = "if length (eventsQueue ?s3) > 0
                then log Warn (MsgQueueNotEmpty (length (eventsQueue ?s3))) ?s3
                else ?s3"
  let ?s5 = "?s4\<lparr>eventsQueue := []\<rparr>"
  have 5: "settled ?s5" "\<not> lxConnected ?s5"
    using s by (auto simp add: settled_def)
  show ?thesis
    using 5 settled_reconnect [OF 5]
    by (simp add: socketOnConnectionClosed_def Let_def)
qed

lemma filter_both_length: "length (filter (\<lambda>x. Q x \<and> P x) ts) \<le> length (filter P ts)"
  by (induction ts) (auto simp add: le_SucI)

lemma filter_removes:
  "t \<in> set ts \<Longrightarrow> P t \<Longrightarrow>
   length (filter (\<lambda>x. h x \<noteq> h t \<and> P x) ts) < length (filter P ts)"
  by (induction ts) (auto simp add: less_Suc_eq_le filter_both_length)

lemma settled_fire:
  assumes "settled s" and "t \<in> set (timers s)"
  shows "settled (fire pI env t s)"
proof -
  let ?s1 = "s\<lparr>timers := filter (\<lambda>t'. handle t' \<noteq> handle t) (timers s), now := max (now s) (due t)\<rparr>"
  have r1: "retries ?s1 \<le> retries s"
    using filter_filter_length [of "\<lambda>t. cb t = ReconnectCb" "\<lambda>t'. handle t' \<noteq> handle t" "timers s"]
    by (simp add: retries_def)
  have s1: "settled ?s1" using assms(1) r1 by (auto simp add: settled_def split: if_splits)
  show ?thesis
  proof (cases "cb t")
    case (AckTimeoutCb ident r)
    from settled_calm [OF calm_ackTimeout s1] show ?thesis
      by (simp add: fire_def runCallback_def AckTimeoutCb)
  next
    case (InfoTimeoutCb ident r)
    from settled_calm [OF calm_basic(6) s1] show ?thesis
      by (simp add: fire_def runCallback_def InfoTimeoutCb)
  next
    case ReconnectCb
    have pos: "0 < retries s"
      using assms(2) ReconnectCb by (auto simp add: retries_def filter_empty_conv)
    hence pending: "reconnectTimer s \<noteq> None" "\<not> lxConnected s" "retries s \<le> 1"
      using assms(1) by (auto simp add: settled_def split: if_splits)
    have "retries ?s1 < retries s"
      using assms(2) ReconnectCb
        filter_removes [where t = t and ts = "timers s" and P = "\<lambda>t. cb t = ReconnectCb" and h = handle]
      by (simp add: retries_def)
    hence r0: "retries ?s1 = 0" using pending(3) by linarith
    let ?s2 = "?s1\<lparr>reconnectTimer := None\<rparr>"
    have s2: "\<not> connectionInProgress ?s2" "reconnectTimer ?s2 = None" "retries ?s2 = 0"
      "\<not> lxConnected ?s2"
      using assms(1) pending r0 by (simp_all add: settled_def retries_def)
    have "settled (connect pI env ?s2)"
    proof (cases "succeeds env ?s2")
      case True
      from connect_success [OF s2(1) True, of pI] s2 show ?thesis
        by (simp add: settled_def connectedLast_def)
    next
      case False
      from connect_failure [OF s2(1) False, of pI] s2 show ?thesis
        by (auto simp add: settled_def)
    qed
    thus ?thesis by (simp add: fire_def runCallback_def ReconnectCb reconnectTimeout_def)
  qed
qed

lemma settled_react: "settled s \<Longrightarrow> settled (react pI st s)"
proof (cases st)
  case (TimerDue h env)
  assume s: "settled s"
  show ?thesis
  proof (cases "find (\<lambda>t. handle t = h) (timers s)")
    case None
    then show ?thesis using s by (simp add: TimerDue)
  next
    case (Some t)
    hence "t \<in> set (timers s)" by (auto simp add: find_Some_iff)
    from settled_fire [OF s this] show ?thesis by (simp add: TimerDue Some)
  qed
qed (simp_all add: settled_onUnload settled_socketOnConnectionClosed
       settled_calm [OF calm_onStateChange] settled_calm [OF calm_socketOnEventReceived])

lemma settled_runs: "settled s \<Longrightarrow> settled (runs pI stimuli s)"
  unfolding runs_def by (induction stimuli arbitrary: s) (simp_all add: settled_react)

lemma calm_initInfoState [simp]: "calm s (initInfoState ident details p s)"
  by (simp add: calm_def initInfoState_def Let_def retries_def)

lemma calm_storeAcknowledged [simp]: "calm s (storeAcknowledged xs s)"
proof (induction xs arbitrary: s)
  case Nil
  then show ?case by simp
next
  case (Cons x xs)
  obtain ident st where x: "x = (ident, st)" by (cases x)
  let ?s1 = "case st of
          Some st' \<Rightarrow>
            if ack st' then s\<lparr>currentStateValues := (currentStateValues s)(ident \<mapsto> val st')\<rparr>
            else s
        | None \<Rightarrow> s"
  have "calm s ?s1" by (simp add: calm_def split: option.splits)
  from calm_trans [OF this Cons [of ?s1]] show ?case by (simp add: x)
qed

lemma calm_initInfoStates [simp]: "calm s (initInfoStates stored s)"
  by (simp add: calm_def initInfoStates_def initInfoState_def Let_def retries_def)

lemma settled_newAdapter: "settled (newAdapter ns)"
  by (simp add: settled_def newAdapter_def retries_def)

lemma settled_onReady: "settled (onReady pI stored allStates env (newAdapter ns))"
proof -
  let ?s1 = "initInfoStates stored (newAdapter ns)"
  let ?s2 = "storeAcknowledged allStates ?s1"
  let ?s4 = "(setConnectionState False ?s2)\<lparr>socket := True\<rparr>"
  have "calm (newAdapter ns) ?s2" by (rule calm_trans [of _ ?s1]) simp_all
  from settled_calm [OF this settled_newAdapter] have s2: "settled ?s2" .
  have c2: "reconnectTimer ?s2 = None"
    using \<open>calm (newAdapter ns) ?s2\<close> by (simp add: calm_def newAdapter_def)
  have s4: "\<not> connectionInProgress ?s4" "reconnectTimer ?s4 = None" "retries ?s4 = 0"
    "\<not> lxConnected ?s4"
    using s2 c2 by (simp_all add: settled_def)
  have "settled (connect pI env ?s4)"
  proof (cases "succeeds env ?s4")
    case True
    from connect_success [OF s4(1) True, of pI] s4 show ?thesis
      by (simp add: settled_def connectedLast_def)
  next
    case False
    from connect_failure [OF s4(1) False, of pI] s4 show ?thesis
      by (auto simp add: settled_def)
  qed
  thus ?thesis by (simp add: onReady_def Let_def)
qed

lemma react_connects:
  assumes "\<not> connectionInProgress s" and "\<not> lxConnected s" and "lxConnected (react pI st s)"
  shows "\<exists>h e t. st = TimerDue h e \<and> t \<in> set (timers s) \<and> handle t = h \<and> cb t = ReconnectCb \<and>
                 succeeds e s"
proof (cases st)
  case (StateChanged ident sv)
  have "calm s (react pI st s)" by (simp add: StateChanged)
  thus ?thesis using assms by (simp add: calm_def)
next
  case (EventsReceived arr events ty)
  have "calm s (react pI st s)" by (simp add: EventsReceived)
  thus ?thesis using assms by (simp add: calm_def)
next
  case (ConnectionClosed code)
  have "\<not> lxConnected (socketOnConnectionClosed code s)"
    by (simp add: socketOnConnectionClosed_def Let_def setConnectionState_def emit_def log_def)
  thus ?thesis using assms(3) by (simp add: ConnectionClosed)
next
  case Unloaded
  let ?s1 = "if socket s then (emit SocketClose s)\<lparr>socket := False\<rparr> else s"
  have "calm (emit UnloadCallback ?s1) (flushInfoStates (emit UnloadCallback ?s1))" by simp
  hence "lxConnected (onUnload s) = lxConnected s"
    by (simp add: calm_def onUnload_def Let_def)
  thus ?thesis using assms by (simp add: Unloaded)
next
  case (TimerDue h env)
  show ?thesis
  proof (cases "find (\<lambda>t. handle t = h) (timers s)")
    case None
    thus ?thesis using assms by (simp add: TimerDue)
  next
    case (Some t)
    hence t: "t \<in> set (timers s)" "handle t = h" by (auto simp add: find_Some_iff)
    let ?s1 = "s\<lparr>timers := filter (\<lambda>t'. handle t' \<noteq> handle t) (timers s), now := max (now s) (due t)\<rparr>"
    have f: "react pI st s = runCallback pI env (cb t) ?s1"
      by (simp add: TimerDue Some fire_def)
    show ?thesis
    proof (cases "cb t")
      case (AckTimeoutCb ident r)
      have "calm ?s1 (ackTimeout pI ident r ?s1)" by simp
      thus ?thesis using assms by (simp add: f runCallback_def AckTimeoutCb calm_def)
    next
      case (InfoTimeoutCb ident r)
      have "calm ?s1 (infoTimeout ident r ?s1)" by simp
      thus ?thesis using assms by (simp add: f runCallback_def InfoTimeoutCb calm_def)
    next
      case ReconnectCb
      let ?s2 = "?s1\<lparr>reconnectTimer := None\<rparr>"
      have s2: "\<not> connectionInProgress ?s2" using assms(1) by simp
      have c: "lxConnected (connect pI env ?s2)"
        using assms(3) by (simp add: f runCallback_def ReconnectCb reconnectTimeout_def)
      have "succeeds env ?s2"
      proof (rule ccontr)
        assume "\<not> succeeds env ?s2"
        from connect_failure(1) [OF s2 this, of pI] c assms(2) show False by simp
      qed
      hence "succeeds env s" by (simp add: succeeds_def)
      thus ?thesis using t ReconnectCb TimerDue by blast
    qed
  qed
qed

text \<open>
  Claim C6. \<^verbatim>\<open>reconnect\<close>, called while no retry timer is pending and no attempt is in
  flight, arms one timer that is due 5000 time units later, stores its handle and
  does nothing else; a second call right after it adds no timer. Called while a handle
  is stored, or while an attempt is in flight, it writes a line to the debug log and
  does nothing else. In every state that the adapter reaches from \<^verbatim>\<open>onReady\<close>, whatever
  reaches it in whatever order, at most one retry timer is pending.
\<close>

theorem reconnect_keeps_one_retry_timer:
  "(reconnectTimer s = None \<and> \<not> connectionInProgress s \<longrightarrow>
      reconnect s =
        s\<lparr>timers := timers s @ [\<lparr>handle = nextTimeout s, due = now s + 5000, cb = ReconnectCb\<rparr>],
          nextTimeout := Suc (nextTimeout s), reconnectTimer := Some (nextTimeout s)\<rparr> \<and>
      timers (reconnect (reconnect s)) = timers (reconnect s) \<and>
      retries (reconnect (reconnect s)) = Suc (retries s)) \<and>
   (reconnectTimer s \<noteq> None \<longrightarrow> reconnect s = log Debug MsgReconnectTimerRunning s) \<and>
   (reconnectTimer s = None \<and> connectionInProgress s \<longrightarrow>
      reconnect s = log Debug MsgReconnectInProgress s) \<and>
   retries (runs pI stimuli (onReady pI stored allStates env (newAdapter ns))) \<le> 1"
proof -
  have a: "retries (runs pI stimuli (onReady pI stored allStates env (newAdapter ns))) \<le> 1"
    using settled_runs [OF settled_onReady, of pI stimuli pI stored allStates env ns]
    by (simp add: settled_def)
  have b: "timers (reconnect (reconnect s)) = timers (reconnect s) \<and>
           retries (reconnect (reconnect s)) = Suc (retries s)"
    if h: "reconnectTimer s = None" "\<not> connectionInProgress s"
  proof -
    have p: "reconnectTimer (reconnect s) \<noteq> None" using h by (simp add: reconnect_retries)
    have "timers (reconnect (reconnect s)) = timers (reconnect s)"
      using reconnect_retries(3) [of "reconnect s"] p by simp
    moreover have "retries (reconnect s) = Suc (retries s)" using h by (simp add: reconnect_retries)
    ultimately show ?thesis by (simp add: retries_def)
  qed
  show ?thesis
    using a b by (simp add: reconnect_arms reconnect_pending reconnect_in_flight)
qed

text \<open>
  An adapter that has just been constructed, and one whose first attempt fails at
  the first step and to which the transport then reports its close twice.
\<close>

definition refusing :: ConnectEnv where
  "refusing = \<lparr>openOk = False, structureFile = None, enableOk = False, arrivals = []\<rparr>"

definition closedTwice :: "Stimulus list" where
  "closedTwice = [ConnectionClosed (OtherCode ''1006''), ConnectionClosed (OtherCode ''1006'')]"

theorem reconnect_keeps_one_retry_timer_witness:
  "reconnectTimer (newAdapter ''loxone.0'') = None \<and>
   \<not> connectionInProgress (newAdapter ''loxone.0'') \<and>
   timers (reconnect (newAdapter ''loxone.0'')) = [\<lparr>handle = 0, due = 5000, cb = ReconnectCb\<rparr>] \<and>
   reconnectTimer (reconnect (newAdapter ''loxone.0'')) = Some 0 \<and>
   timers (reconnect (reconnect (newAdapter ''loxone.0''))) = [\<lparr>handle = 0, due = 5000, cb = ReconnectCb\<rparr>] \<and>
   retries (reconnect (reconnect (newAdapter ''loxone.0''))) = 1 \<and>
   reconnectTimer (reconnect (newAdapter ''loxone.0'')) \<noteq> None \<and>
   reconnect (reconnect (newAdapter ''loxone.0''))
     = log Debug MsgReconnectTimerRunning (reconnect (newAdapter ''loxone.0'')) \<and>
   connectionInProgress ((newAdapter ''loxone.0'')\<lparr>connectionInProgress := True\<rparr>) \<and>
   reconnect ((newAdapter ''loxone.0'')\<lparr>connectionInProgress := True\<rparr>)
     = log Debug MsgReconnectInProgress ((newAdapter ''loxone.0'')\<lparr>connectionInProgress := True\<rparr>) \<and>
   retries (runs (\<lambda>v. v) closedTwice (onReady (\<lambda>v. v) (\<lambda>i. None) [] refusing (newAdapter ''loxone.0''))) \<le> 1"
proof -
  have h: "reconnectTimer (newAdapter ''loxone.0'') = None \<and> \<not> connectionInProgress (newAdapter ''loxone.0'')"
    by (simp add: newAdapter_def)
  note t = reconnect_keeps_one_retry_timer
             [where s = "newAdapter ''loxone.0''" and pI = "\<lambda>v. v" and stimuli = closedTwice
                and stored = "\<lambda>i. None" and allStates = "[]" and env = refusing
                and ns = "''loxone.0''"]
  from t have r: "retries (runs (\<lambda>v. v) closedTwice (onReady (\<lambda>v. v) (\<lambda>i. None) [] refusing (newAdapter ''loxone.0''))) \<le> 1"
    by blast
  from t h have e: "reconnect (newAdapter ''loxone.0'') =
        (newAdapter ''loxone.0'')\<lparr>timers := timers (newAdapter ''loxone.0'') @ [\<lparr>handle = nextTimeout (newAdapter ''loxone.0''), due = now (newAdapter ''loxone.0'') + 5000, cb = ReconnectCb\<rparr>],
          nextTimeout := Suc (nextTimeout (newAdapter ''loxone.0'')), reconnectTimer := Some (nextTimeout (newAdapter ''loxone.0''))\<rparr>"
    and d: "timers (reconnect (reconnect (newAdapter ''loxone.0''))) = timers (reconnect (newAdapter ''loxone.0''))"
    and c: "retries (reconnect (reconnect (newAdapter ''loxone.0''))) = Suc (retries (newAdapter ''loxone.0''))"
    by blast+
  have z: "retries (newAdapter ''loxone.0'') = 0" by (simp add: retries_def newAdapter_def)
  have e': "timers (reconnect (newAdapter ''loxone.0'')) = [\<lparr>handle = 0, due = 5000, cb = ReconnectCb\<rparr>]"
    "reconnectTimer (reconnect (newAdapter ''loxone.0'')) = Some 0"
    unfolding e by (simp_all add: newAdapter_def)
  note t2 = reconnect_keeps_one_retry_timer
             [where s = "reconnect (newAdapter ''loxone.0'')" and pI = "\<lambda>v. v" and stimuli = closedTwice
                and stored = "\<lambda>i. None" and allStates = "[]" and env = refusing
                and ns = "''loxone.0''"]
  from t2 e'(2) have p: "reconnect (reconnect (newAdapter ''loxone.0''))
     = log Debug MsgReconnectTimerRunning (reconnect (newAdapter ''loxone.0''))"
    by simp
  have h3: "reconnectTimer ((newAdapter ''loxone.0'')\<lparr>connectionInProgress := True\<rparr>) = None \<and>
            connectionInProgress ((newAdapter ''loxone.0'')\<lparr>connectionInProgress := True\<rparr>)"
    by (simp add: newAdapter_def)
  note t3 = reconnect_keeps_one_retry_timer
             [where s = "(newAdapter ''loxone.0'')\<lparr>connectionInProgress := True\<rparr>"
                and pI = "\<lambda>v. v" and stimuli = closedTwice
                and stored = "\<lambda>i. None" and allStates = "[]" and env = refusing
                and ns = "''loxone.0''"]
  from t3 h3 have f: "reconnect ((newAdapter ''loxone.0'')\<lparr>connectionInProgress := True\<rparr>)
     = log Debug MsgReconnectInProgress ((newAdapter ''loxone.0'')\<lparr>connectionInProgress := True\<rparr>)"
    by blast
  show ?thesis using h r d c z e' p f h3 by simp
qed

text \<open>
  Claim C5. Let \<^verbatim>\<open>connect\<close> be called while no attempt is in progress. The steps of
  the attempt are the opening of the socket, the request and the loading of the
  structure file and the request to enable the status updates; \<open>succeeds\<close> says that
  none of them fails, \<open>attemptCalls\<close> are the calls on the socket as far as the steps
  go.

  \<^item> If a step fails, the socket, if the adapter has one, is closed after these calls
    and nothing else is done on it, the connection state is left as it was, and a retry
    is pending afterwards: if none was pending before, the timer is due 5000 time units
    later.
  \<^item> If no step fails, the connection state is set to true after these calls, as the
    last thing, and the queue is running.
  \<^item> In both cases no attempt is in progress afterwards. After each of the three steps
    the attempt is in progress and the connection state is what it was before the
    attempt.
  \<^item> Whatever reaches the adapter, the connection state turns from false to true only
    when a retry timer fires and the attempt it starts succeeds in every step.
  \<^item> In every state that the adapter reaches from \<^verbatim>\<open>onReady\<close> no attempt is in
    progress; and if the connection state is true, no retry is pending (so no attempt
    starts before the transport reports its close, which sets the state to false) and,
    as long as the adapter has its socket, nothing was done on the socket since the
    state was set.
\<close>

theorem connect_sets_connection_state_after_full_success:
  assumes "\<not> connectionInProgress s"
  shows
    "(\<not> succeeds env s \<longrightarrow>
        linkEffects (trace (connect pI env s))
          = linkEffects (trace s) @ attemptCalls env s @ (if socket s then [SocketClose] else []) \<and>
        lxConnected (connect pI env s) = lxConnected s \<and>
        reconnectTimer (connect pI env s) \<noteq> None \<and>
        (reconnectTimer s = None \<longrightarrow>
           (\<exists>h. reconnectTimer (connect pI env s) = Some h \<and>
                \<lparr>handle = h, due = now s + 5000, cb = ReconnectCb\<rparr> \<in> set (timers (connect pI env s))))) \<and>
     (succeeds env s \<longrightarrow>
        linkEffects (trace (connect pI env s))
          = linkEffects (trace s) @ attemptCalls env s @ [SetConnection True] \<and>
        lxConnected (connect pI env s) \<and> runQueue (connect pI env s) \<and>
        reconnectTimer (connect pI env s) = reconnectTimer s) \<and>
     \<not> connectionInProgress (connect pI env s) \<and>
     (\<forall>p \<in> {snd (connectOpen env s), snd (connectLoad pI env (connectOpen env s)),
             snd (connectEnable env (connectLoad pI env (connectOpen env s)))}.
        connectionInProgress p \<and> lxConnected p = lxConnected s) \<and>
     (\<forall>st. \<not> lxConnected s \<and> lxConnected (react pI st s) \<longrightarrow>
        (\<exists>h e t. st = TimerDue h e \<and> t \<in> set (timers s) \<and> handle t = h \<and> cb t = ReconnectCb \<and>
                 succeeds e s)) \<and>
     (\<forall>stimuli stored allStates env0 ns.
        let r = runs pI stimuli (onReady pI stored allStates env0 (newAdapter ns))
        in \<not> connectionInProgress r \<and>
           (lxConnected r \<longrightarrow>
              reconnectTimer r = None \<and> retries r = 0 \<and> (socket r \<longrightarrow> connectedLast (trace r))))"
proof -
  have failure: "linkEffects (trace (connect pI env s))
          = linkEffects (trace s) @ attemptCalls env s @ (if socket s then [SocketClose] else []) \<and>
        lxConnected (connect pI env s) = lxConnected s \<and>
        reconnectTimer (connect pI env s) \<noteq> None \<and>
        (reconnectTimer s = None \<longrightarrow>
           (\<exists>h. reconnectTimer (connect pI env s) = Some h \<and>
                \<lparr>handle = h, due = now s + 5000, cb = ReconnectCb\<rparr> \<in> set (timers (connect pI env s)))) \<and>
        \<not> connectionInProgress (connect pI env s)"
    if f: "\<not> succeeds env s"
    using connect_failure [OF assms f, of pI] by blast
  have success: "linkEffects (trace (connect pI env s))
          = linkEffects (trace s) @ attemptCalls env s @ [SetConnection True] \<and>
        lxConnected (connect pI env s) \<and> runQueue (connect pI env s) \<and>
        reconnectTimer (connect pI env s) = reconnectTimer s \<and>
        \<not> connectionInProgress (connect pI env s)"
    if f: "succeeds env s"
    using connect_success [OF assms f, of pI] by blast
  have after: "\<not> connectionInProgress (connect pI env s)"
    using failure success by blast
  have phases: "\<forall>p \<in> {snd (connectOpen env s), snd (connectLoad pI env (connectOpen env s)),
             snd (connectEnable env (connectLoad pI env (connectOpen env s)))}.
        connectionInProgress p \<and> lxConnected p = lxConnected s"
    using connect_steps(2,5) [where env = env and pI = pI and s = s]
      connect_steps(4) [where env = env and s = s]
    by (simp add: attempting_def)
  have turns: "\<forall>st. \<not> lxConnected s \<and> lxConnected (react pI st s) \<longrightarrow>
        (\<exists>h e t. st = TimerDue h e \<and> t \<in> set (timers s) \<and> handle t = h \<and> cb t = ReconnectCb \<and>
                 succeeds e s)"
    using react_connects [OF assms] by blast
  have always: "\<forall>stimuli stored allStates env0 ns.
        let r = runs pI stimuli (onReady pI stored allStates env0 (newAdapter ns))
        in \<not> connectionInProgress r \<and>
           (lxConnected r \<longrightarrow>
              reconnectTimer r = None \<and> retries r = 0 \<and> (socket r \<longrightarrow> connectedLast (trace r)))"
  proof (intro allI)
    fix stimuli stored allStates env0 ns
    from settled_runs [OF settled_onReady, of pI stimuli pI stored allStates env0 ns]
    show "let r = runs pI stimuli (onReady pI stored allStates env0 (newAdapter ns))
        in \<not> connectionInProgress r \<and>
           (lxConnected r \<longrightarrow>
              reconnectTimer r = None \<and> retries r = 0 \<and> (socket r \<longrightarrow> connectedLast (trace r)))"
      by (simp add: settled_def Let_def)
  qed
  show ?thesis
    using failure success after phases turns always by blast
qed


text \<open>
  The adapter with its socket constructed, before the first attempt; an attempt in
  which the status updates cannot be enabled, and one in which every step succeeds,
  the structure file registering nothing.
\<close>

definition constructed :: Loxone where
  "constructed = (newAdapter ''loxone.0'')\<lparr>socket := True\<rparr>"

definition updatesRefused :: ConnectEnv where
  "updatesRefused =
     \<lparr>openOk = True, structureFile = Some \<lparr>bindings = [], loadThrows = False\<rparr>,
      enableOk = False, arrivals = []\<rparr>"

definition allGranted :: ConnectEnv where
  "allGranted =
     \<lparr>openOk = True, structureFile = Some \<lparr>bindings = [], loadThrows = False\<rparr>,
      enableOk = True, arrivals = []\<rparr>"

theorem connect_sets_connection_state_after_full_success_witness:
  "\<not> connectionInProgress constructed \<and>
   \<not> succeeds updatesRefused constructed \<and>
   linkEffects (trace (connect (\<lambda>v. v) updatesRefused constructed))
     = [SocketOpen, SocketSend ''data/LoxAPP3.json'', SocketSend ''jdev/sps/enablebinstatusupdate'',
        SocketClose] \<and>
   \<not> lxConnected (connect (\<lambda>v. v) updatesRefused constructed) \<and>
   (\<exists>h. reconnectTimer (connect (\<lambda>v. v) updatesRefused constructed) = Some h \<and>
        \<lparr>handle = h, due = 5000, cb = ReconnectCb\<rparr>
          \<in> set (timers (connect (\<lambda>v. v) updatesRefused constructed))) \<and>
   \<not> connectionInProgress (connect (\<lambda>v. v) updatesRefused constructed) \<and>
   succeeds allGranted constructed \<and>
   linkEffects (trace (connect (\<lambda>v. v) allGranted constructed))
     = [SocketOpen, SocketSend ''data/LoxAPP3.json'', SocketSend ''jdev/sps/enablebinstatusupdate'',
        SetConnection True] \<and>
   lxConnected (connect (\<lambda>v. v) allGranted constructed) \<and>
   runQueue (connect (\<lambda>v. v) allGranted constructed) \<and>
   reconnectTimer (connect (\<lambda>v. v) allGranted constructed) = None \<and>
   \<not> connectionInProgress (connect (\<lambda>v. v) allGranted constructed) \<and>
   \<not> connectionInProgress
       (runs (\<lambda>v. v) [ConnectionClosed (OtherCode ''1006''), Unloaded]
          (onReady (\<lambda>v. v) (\<lambda>i. None) [] allGranted (newAdapter ''loxone.0'')))"
proof -
  have h: "\<not> connectionInProgress constructed"
    by (simp add: constructed_def newAdapter_def)
  have c: "reconnectTimer constructed = None" "now constructed = 0" "socket constructed"
    "\<not> lxConnected constructed" "trace constructed = []"
    by (simp_all add: constructed_def newAdapter_def)
  have f: "\<not> succeeds updatesRefused constructed"
    "attemptCalls updatesRefused constructed
       = [SocketOpen, SocketSend ''data/LoxAPP3.json'', SocketSend ''jdev/sps/enablebinstatusupdate'']"
    using c(3) by (simp_all add: succeeds_def attemptCalls_def updatesRefused_def)
  have g: "succeeds allGranted constructed"
    "attemptCalls allGranted constructed
       = [SocketOpen, SocketSend ''data/LoxAPP3.json'', SocketSend ''jdev/sps/enablebinstatusupdate'']"
    using c(3) by (simp_all add: succeeds_def attemptCalls_def allGranted_def)
  note t1 = connect_sets_connection_state_after_full_success
              [OF h, where env = updatesRefused and pI = "\<lambda>v. v"]
  note t2 = connect_sets_connection_state_after_full_success
              [OF h, where env = allGranted and pI = "\<lambda>v. v"]
  from t1 f(1) have
    a1: "linkEffects (trace (connect (\<lambda>v. v) updatesRefused constructed))
          = linkEffects (trace constructed) @ attemptCalls updatesRefused constructed
            @ (if socket constructed then [SocketClose] else [])"
    and a2: "lxConnected (connect (\<lambda>v. v) updatesRefused constructed) = lxConnected constructed"
    and a3: "reconnectTimer constructed = None \<longrightarrow>
           (\<exists>h. reconnectTimer (connect (\<lambda>v. v) updatesRefused constructed) = Some h \<and>
                \<lparr>handle = h, due = now constructed + 5000, cb = ReconnectCb\<rparr>
                  \<in> set (timers (connect (\<lambda>v. v) updatesRefused constructed)))"
    and a4: "\<not> connectionInProgress (connect (\<lambda>v. v) updatesRefused constructed)"
    by blast+
  from t2 g(1) have
    b1: "linkEffects (trace (connect (\<lambda>v. v) allGranted constructed))
          = linkEffects (trace constructed) @ attemptCalls allGranted constructed @ [SetConnection True]"
    and b2: "lxConnected (connect (\<lambda>v. v) allGranted constructed)"
    and b3: "runQueue (connect (\<lambda>v. v) allGranted constructed)"
    and b4: "reconnectTimer (connect (\<lambda>v. v) allGranted constructed) = reconnectTimer constructed"
    and b5: "\<not> connectionInProgress (connect (\<lambda>v. v) allGranted constructed)"
    by blast+
  from t2 have
    "let r = runs (\<lambda>v. v) [ConnectionClosed (OtherCode ''1006''), Unloaded]
               (onReady (\<lambda>v. v) (\<lambda>i. None) [] allGranted (newAdapter ''loxone.0''))
     in \<not> connectionInProgress r \<and>
        (lxConnected r \<longrightarrow>
           reconnectTimer r = None \<and> retries r = 0 \<and> (socket r \<longrightarrow> connectedLast (trace r)))"
    by blast
  hence r: "\<not> connectionInProgress
       (runs (\<lambda>v. v) [ConnectionClosed (OtherCode ''1006''), Unloaded]
          (onReady (\<lambda>v. v) (\<lambda>i. None) [] allGranted (newAdapter ''loxone.0'')))"
    by (simp add: Let_def)
  show ?thesis
    using h f g a1 a2 a3 a4 b1 b2 b3 b4 b5 r c by simp
qed

end
